theory Spec2Isabelle
  imports Main "HOL-Library.Word" "HOL-Library.Sublist"
begin

unbundle bit_operations_syntax

section \<open>Constants of headers that are not part of the sources\<close>

text \<open>
  \<^verbatim>\<open>gcache_page.cpp\<close> and \<^verbatim>\<open>gcache_page_store.cpp\<close> use constants that are declared in
  \<^verbatim>\<open>gcache_memops.hpp\<close>, \<^verbatim>\<open>gcache_bh.hpp\<close>, \<^verbatim>\<open>gcache_limits.hpp\<close> and \<^verbatim>\<open>gcache_page.hpp\<close>.
  Their values are parameters of every definition below.
\<close>

record Consts =
  ALIGNMENT :: nat   \<comment> \<open>the alignment boundary of \<^verbatim>\<open>Page::aligned_size\<close>\<close>
  BH_SIZE :: nat     \<comment> \<open>\<^verbatim>\<open>sizeof(BufferHeader)\<close>\<close>
  NONCE_SIZE :: nat  \<comment> \<open>\<^verbatim>\<open>Page::Nonce::size()\<close>, the width of \<^verbatim>\<open>Nonce::d\<close> in bytes\<close>
  MAX_SIZE :: nat    \<comment> \<open>the largest size \<^verbatim>\<open>Limits::assert_size\<close> lets pass\<close>
  DEBUG :: int       \<comment> \<open>the debug bit of \<^verbatim>\<open>PageStore\<close>\<close>

type_synonym byte = "8 word"
type_synonym memory = "nat \<Rightarrow> byte"

text \<open>
  Modelled from the spec: \<^verbatim>\<open>Page::aligned_size\<close> (in \<^verbatim>\<open>gcache_page.hpp\<close>) rounds a size up
  to an alignment boundary.
\<close>

definition aligned_size :: "Consts \<Rightarrow> nat \<Rightarrow> nat" where
  "aligned_size K s = ((s + ALIGNMENT K - 1) div ALIGNMENT K) * ALIGNMENT K"

text \<open>
  Modelled from the spec: \<^verbatim>\<open>MemOps::BH_aligned_size\<close> sizes an allocation so that it leaves
  room for the buffer header in front of the payload.
\<close>

definition BH_aligned_size :: "Consts \<Rightarrow> nat \<Rightarrow> nat" where
  "BH_aligned_size K s = aligned_size K (BH_SIZE K + s)"

text \<open>
  Modelled from the spec: \<^verbatim>\<open>Page::meta_size\<close> is the per-page metadata overhead, the aligned
  nonce block followed by the key-metadata block.
\<close>

definition meta_size :: "Consts \<Rightarrow> nat \<Rightarrow> nat" where
  "meta_size K enc_key_size = aligned_size K (NONCE_SIZE K) + BH_aligned_size K enc_key_size"

text \<open>
  Modelled from the spec: \<^verbatim>\<open>Limits::assert_size\<close> is the external size-limit check; a size
  that does not pass aborts.
\<close>

definition assert_size :: "Consts \<Rightarrow> nat \<Rightarrow> bool" where
  "assert_size K s \<longleftrightarrow> s \<le> MAX_SIZE K"

section \<open>Outcomes\<close>

text \<open>
  A call returns a value and the new state, throws a \<^verbatim>\<open>gu::Exception\<close> (leaving the state
  as it was at the throw), aborts the process, or runs into undefined behaviour (a null
  pointer is written through, \<^verbatim>\<open>front()\<close> of an empty deque, a pointer into a deleted page).
\<close>

datatype ('v, 's) outcome = Return 'v 's | Thrown 's | Aborted | Undefined

section \<open>Buffer headers\<close>

text \<open>
  Modelled from the spec: the buffer header of \<^verbatim>\<open>gcache_bh.hpp\<close> carries the total slot size,
  the owning page, a sequence number and a released flag; its binary layout is an external
  contract. A page therefore has two views: its bytes, and the header that describes the slot
  at an offset. \<^verbatim>\<open>BH_cast\<close> and \<^verbatim>\<open>ptr2BH\<close> give the header of the slot a pointer stands for.
\<close>

record BufferHeader =
  bh_size :: nat
  bh_ctx :: "nat option"
  bh_seqno_g :: int
  bh_released :: bool

text \<open>
  Modelled from the spec: \<^verbatim>\<open>BH_clear\<close> makes the empty header that ends the chain of a
  page, of size zero; \<^verbatim>\<open>BH_release\<close> sets the released flag.
\<close>

definition BH_clear :: BufferHeader where
  "BH_clear = \<lparr>bh_size = 0, bh_ctx = None, bh_seqno_g = 0, bh_released = False\<rparr>"

definition BH_release :: "BufferHeader \<Rightarrow> BufferHeader" where
  "BH_release bh = bh\<lparr>bh_released := True\<rparr>"

section \<open>Nonce\<close>

text \<open>The bytes \<^verbatim>\<open>d\<close> of a nonce; a nonce of the program has \<^verbatim>\<open>Nonce::size()\<close> of them.\<close>

type_synonym Nonce = "byte list"

definition nonce_serial_size :: "Consts \<Rightarrow> nat \<Rightarrow> nat" where
  "nonce_serial_size K buf_size = min (NONCE_SIZE K) buf_size"

text \<open>\<^verbatim>\<open>Nonce(const void* ptr, size_t size)\<close>: \<^verbatim>\<open>d\<close> is zeroed, then filled from the buffer.\<close>

definition Nonce_read :: "Consts \<Rightarrow> memory \<Rightarrow> nat \<Rightarrow> nat \<Rightarrow> Nonce" where
  "Nonce_read K m ptr sz =
     map (\<lambda>i. if i < nonce_serial_size K sz then m (ptr + i) else 0) [0..<NONCE_SIZE K]"

text \<open>\<^verbatim>\<open>Nonce::write\<close>: the memory after the \<^verbatim>\<open>memcpy\<close>, and the count written.\<close>

definition Nonce_write :: "Consts \<Rightarrow> Nonce \<Rightarrow> memory \<Rightarrow> nat \<Rightarrow> nat \<Rightarrow> memory \<times> nat" where
  "Nonce_write K d m ptr sz =
     (let write_size = nonce_serial_size K sz
      in ((\<lambda>i. if ptr \<le> i \<and> i < ptr + write_size then d ! (i - ptr) else m i), write_size))"

section \<open>Page\<close>

text \<open>
  The members \<^verbatim>\<open>key_\<close>, \<^verbatim>\<open>nonce_\<close>, \<^verbatim>\<open>next_\<close>, \<^verbatim>\<open>space_\<close>, \<^verbatim>\<open>used_\<close> and \<^verbatim>\<open>debug_\<close> are the
  fields \<open>pg_key\<close> to \<open>pg_debug\<close>.
\<close>

record Page =
  self :: nat            \<comment> \<open>the address of the object: what a \<^verbatim>\<open>Page*\<close> holds\<close>
  name :: string         \<comment> \<open>\<^verbatim>\<open>fd_.name()\<close>\<close>
  msize :: nat           \<comment> \<open>\<^verbatim>\<open>mmap_.size\<close>, which is \<^verbatim>\<open>fd_.size()\<close>\<close>
  mem :: memory          \<comment> \<open>the mapped bytes, by offset from \<^verbatim>\<open>mmap_.ptr\<close>\<close>
  bhs :: "nat \<Rightarrow> BufferHeader"  \<comment> \<open>the header of the slot at an offset\<close>
  pg_key :: "byte list"
  pg_nonce :: Nonce
  pg_next :: nat           \<comment> \<open>offset of the cursor from \<^verbatim>\<open>mmap_.ptr\<close>\<close>
  pg_space :: nat
  pg_used :: nat
  pg_debug :: int

text \<open>
  Modelled from the spec: \<^verbatim>\<open>Page::size()\<close> (in \<^verbatim>\<open>gcache_page.hpp\<close>) is the mapped size of the
  page.
\<close>

definition Page_size :: "Page \<Rightarrow> nat" where
  "Page_size p = msize p"

text \<open>
  The constructor. The file and its mapping are services of the operating system: \<open>m0\<close> and
  \<open>h0\<close> are what the new mapping of \<^verbatim>\<open>aligned_size(size)\<close> bytes holds. Sizes are
  naturals; the subtractions of the sources on \<^verbatim>\<open>size_t\<close> never go below zero where the
  claims use them (lemmas \<open>Page_ctor_no_wrap\<close>, \<open>Page_reset_no_wrap\<close> and \<open>inv_hd_le\<close>).
\<close>

definition Page_ctor ::
  "Consts \<Rightarrow> nat \<Rightarrow> string \<Rightarrow> Nonce \<Rightarrow> byte list \<Rightarrow> nat \<Rightarrow> int \<Rightarrow> memory \<Rightarrow> (nat \<Rightarrow> BufferHeader)
     \<Rightarrow> Page" where
  "Page_ctor K addr nm n k sz dbg m0 h0 =
     (let map_size = aligned_size K sz;
          (m1, written) = Nonce_write K n m0 0 map_size;
          nonce_size = aligned_size K written
      in \<lparr>self = addr, name = nm, msize = map_size, mem = m1, bhs = h0, pg_key = k,
          pg_nonce = n, pg_next = 0 + nonce_size, pg_space = map_size - nonce_size,
          pg_used = 0, pg_debug = dbg\<rparr>)"

text \<open>\<^verbatim>\<open>Page::close\<close>.\<close>

definition Page_close :: "Consts \<Rightarrow> Page \<Rightarrow> Page" where
  "Page_close K p =
     (if pg_space p \<ge> BH_SIZE K then p\<lparr>bhs := (bhs p)(pg_next p := BH_clear)\<rparr> else p)"

text \<open>
  \<^verbatim>\<open>Page::malloc\<close>: the offset returned, or \<open>None\<close> for the null pointer. It throws
  nothing: where a caller below matches on its outcome, the branches for a thrown exception
  and for undefined behaviour are never taken.
\<close>

definition Page_malloc :: "Consts \<Rightarrow> Page \<Rightarrow> nat \<Rightarrow> (nat option, Page) outcome" where
  "Page_malloc K p sz =
     (if \<not> assert_size K sz then Aborted
      else let alloc_size = aligned_size K sz
           in if alloc_size \<le> pg_space p
              then Return (Some (pg_next p))
                     (p\<lparr>pg_space := pg_space p - alloc_size, pg_next := pg_next p + alloc_size,
                        pg_used := pg_used p + 1\<rparr>)
              else Return None (Page_close K p))"

text \<open>\<^verbatim>\<open>Page::realloc\<close>; its \<^verbatim>\<open>assert(0)\<close> is compiled out in a release build.\<close>

definition Page_realloc :: "Page \<Rightarrow> nat \<Rightarrow> nat \<Rightarrow> nat option" where
  "Page_realloc p ptr sz = None"

text \<open>
  Modelled from the spec: \<^verbatim>\<open>Page::free\<close> and \<^verbatim>\<open>Page::discard\<close> (in \<^verbatim>\<open>gcache_page.hpp\<close>)
  release a slot: they decrement the in-use count, which never goes below zero.
\<close>

definition Page_free :: "Page \<Rightarrow> Page" where
  "Page_free p = p\<lparr>pg_used := pg_used p - 1\<rparr>"

text \<open>\<^verbatim>\<open>Page::reset\<close>.\<close>

definition Page_reset :: "Consts \<Rightarrow> Page \<Rightarrow> (unit, Page) outcome" where
  "Page_reset K p =
     (if pg_used p > 0 then Aborted
      else let (m1, written) = Nonce_write K (pg_nonce p) (mem p) (pg_next p) (pg_space p);
               nonce_size = aligned_size K written
           in Return () (p\<lparr>mem := m1, pg_space := msize p - nonce_size,
                            pg_next := 0 + nonce_size\<rparr>))"

text \<open>
  \<^verbatim>\<open>Page::print\<close>, which \<^verbatim>\<open>operator<<\<close> on a page calls. The stream is the list of the lines
  written to it: the line of the page, then, when buffers are in use and debugging is on, a
  line for every header that is not released and a line for the gap behind such a header.
  The walk starts at \<^verbatim>\<open>mmap_.ptr\<close>, offset 0, where the nonce lies, not at the first slot,
  and moves by the size that the header at the position shows; it ends only when it hits
  the cursor exactly. Reading a header that does not lie within the mapping is undefined
  behaviour. A walk that never ends has no result: \<open>None\<close>. The \<^verbatim>\<open>assert\<close> is compiled out
  in a release build.
\<close>

datatype print_item = Page_line string nat nat | Off_line nat BufferHeader | Gap_line

partial_function (option) print_walk ::
  "Consts \<Rightarrow> Page \<Rightarrow> nat \<Rightarrow> bool \<Rightarrow> print_item list \<Rightarrow> (unit, print_item list) outcome option"
where
  "print_walk K pg p was_released os =
     (if p = pg_next pg then Some (Return () os)
      else if msize pg < p + BH_SIZE K then Some Undefined
      else let offset = p;
               bh = bhs pg p;
               p1 = p + bh_size bh
           in if \<not> bh_released bh
              then print_walk K pg p1 False (os @ [Off_line offset bh])
              else print_walk K pg p1 True
                     (if \<not> was_released \<and> p1 \<noteq> pg_next pg then os @ [Gap_line] else os))"

definition Page_print ::
  "Consts \<Rightarrow> Page \<Rightarrow> print_item list \<Rightarrow> (unit, print_item list) outcome option" where
  "Page_print K pg os =
     (let os1 = os @ [Page_line (name pg) (Page_size pg) (pg_used pg)]
      in if pg_used pg > 0 \<and> pg_debug pg > 0 then print_walk K pg 0 True os1
         else Some (Return () os1))"

section \<open>The environment of a call\<close>

text \<open>
  What the operating system decides during one call: whether a page file of a given name and
  size can be created and mapped (the constructor of \<^verbatim>\<open>Page\<close> throws otherwise) and what the
  mapping then holds, the random nonce of a new page, and the error code of
  \<^verbatim>\<open>pthread_create\<close> for the thread that removes a given file.
\<close>

record Env =
  cfg :: Consts
  file_ok :: "string \<Rightarrow> nat \<Rightarrow> bool"
  file_mem :: "string \<Rightarrow> memory"
  file_bhs :: "string \<Rightarrow> nat \<Rightarrow> BufferHeader"
  rand_nonce :: "string \<Rightarrow> Nonce"
  thread_err :: "string \<Rightarrow> int"

text \<open>
  The effects that leave the store: the cache hint of \<^verbatim>\<open>drop_fs_cache\<close>, the join of the
  deletion thread, the dispatch of \<^verbatim>\<open>remove_file\<close> on a file name, and the lines of
  \<^verbatim>\<open>log_error\<close>.
\<close>

datatype log_msg = Cannot_create_page | In_dtor | Could_not_delete nat
  | Page_dump "print_item list"

datatype event = Drop_fs_cache string | Pthread_join string | Remove_file string
  | Log_error log_msg

section \<open>PageStore\<close>

text \<open>
  The members of \<^verbatim>\<open>PageStore\<close> without their trailing underscore; \<^verbatim>\<open>debug_\<close> is \<open>ps_debug\<close>.
  \<open>pages\<close> is the deque, oldest page first; it owns the pages. \<open>current\<close> is a \<^verbatim>\<open>Page*\<close>,
  \<open>None\<close> for null. \<open>delete_thr\<close> is \<open>None\<close> for \<^verbatim>\<open>pthread_t(-1)\<close>, else the thread that
  removes the named file. \<open>trace\<close> collects the effects. The store is the build without
  \<^verbatim>\<open>GCACHE_DETACH_THREAD\<close>.
\<close>

record PageStore =
  base_name :: string
  enc_key :: "byte list"
  keep_size :: nat
  page_size :: nat
  keep_page :: bool
  count :: nat
  pages :: "Page list"
  current :: "nat option"
  total_size :: nat
  ps_debug :: int
  delete_thr :: "string option"
  trace :: "event list"

text \<open>Reading and writing through a \<^verbatim>\<open>Page*\<close>.\<close>

fun find_page :: "nat \<Rightarrow> Page list \<Rightarrow> Page option" where
  "find_page a [] = None"
| "find_page a (p # ps) = (if self p = a then Some p else find_page a ps)"

definition put_page :: "Page \<Rightarrow> Page list \<Rightarrow> Page list" where
  "put_page q ps = map (\<lambda>p. if self p = self q then q else p) ps"

text \<open>\<^verbatim>\<open>make_base_name\<close> and \<^verbatim>\<open>make_page_name\<close>.\<close>

definition make_base_name :: "string \<Rightarrow> string" where
  "make_base_name dir_name =
     (if dir_name = [] then ''gcache.page.''
      else if last dir_name = CHR ''/'' then dir_name @ ''gcache.page.''
      else dir_name @ ''/'' @ ''gcache.page.'')"

fun decimal :: "nat \<Rightarrow> string" where
  "decimal n = (if n < 10 then [char_of (48 + n)] else decimal (n div 10) @ [char_of (48 + n mod 10)])"

definition make_page_name :: "string \<Rightarrow> nat \<Rightarrow> string" where
  "make_page_name base cnt =
     (let d = decimal cnt in base @ replicate (6 - length d) (CHR ''0'') @ d)"

text \<open>The constructor of \<^verbatim>\<open>PageStore\<close>, when \<^verbatim>\<open>pthread_attr_init\<close> succeeds.\<close>

definition PageStore_ctor :: "Consts \<Rightarrow> string \<Rightarrow> nat \<Rightarrow> nat \<Rightarrow> int \<Rightarrow> bool \<Rightarrow> PageStore" where
  "PageStore_ctor K dir_name keep_sz page_sz dbg keep_pg =
     \<lparr>base_name = make_base_name dir_name, enc_key = [], keep_size = keep_sz,
      page_size = page_sz, keep_page = keep_pg, count = 0, pages = [], current = None,
      total_size = 0, ps_debug = dbg AND DEBUG K, delete_thr = None, trace = []\<rparr>"

text \<open>\<^verbatim>\<open>PageStore::delete_page\<close>.\<close>

definition delete_page :: "Env \<Rightarrow> PageStore \<Rightarrow> (bool, PageStore) outcome" where
  "delete_page E ps =
     (case pages ps of
        [] \<Rightarrow> Undefined
      | page # rest \<Rightarrow>
          if pg_used page > 0 then Return False ps
          else
            let file_name = name page;
                ps1 = ps\<lparr>pages := rest\<rparr>;
                ps2 = ps1\<lparr>total_size := total_size ps1 - Page_size page\<rparr>;
                ps3 = (if current ps2 = Some (self page) then ps2\<lparr>current := None\<rparr> else ps2);
                ps4 = (case delete_thr ps3 of
                         None \<Rightarrow> ps3
                       | Some thr \<Rightarrow> ps3\<lparr>trace := trace ps3 @ [Pthread_join thr]\<rparr>)
            in if thread_err E file_name \<noteq> 0 then Thrown (ps4\<lparr>delete_thr := None\<rparr>)
               else Return True
                      (ps4\<lparr>delete_thr := Some file_name,
                           trace := trace ps4 @ [Remove_file file_name]\<rparr>))"

text \<open>
  Modelled from the spec: \<^verbatim>\<open>PageStore::page_cleanup_needed\<close> (in \<^verbatim>\<open>gcache_page_store.hpp\<close>)
  is the retention predicate: the total live size exceeds the keep-size budget.
\<close>

definition page_cleanup_needed :: "PageStore \<Rightarrow> bool" where
  "page_cleanup_needed ps \<longleftrightarrow> total_size ps > keep_size ps"

text \<open>\<^verbatim>\<open>PageStore::cleanup\<close>.\<close>

function cleanup :: "Env \<Rightarrow> PageStore \<Rightarrow> (unit, PageStore) outcome" where
  "cleanup E ps =
     (if page_cleanup_needed ps
      then (case delete_page E ps of
              Return b ps' \<Rightarrow> if b then cleanup E ps' else Return () ps'
            | Thrown ps' \<Rightarrow> Thrown ps'
            | Aborted \<Rightarrow> Aborted
            | Undefined \<Rightarrow> Undefined)
      else Return () ps)"
  by pat_completeness auto
termination
  by (relation "measure (\<lambda>(E, ps). length (pages ps))")
     (auto simp: delete_page_def Let_def split: list.splits if_splits option.splits)

declare cleanup.simps [simp del]

text \<open>\<^verbatim>\<open>PageStore::reset\<close>; the destructor runs the same loop.\<close>

function PageStore_reset :: "Env \<Rightarrow> PageStore \<Rightarrow> (unit, PageStore) outcome" where
  "PageStore_reset E ps =
     (if length (pages ps) > 0
      then (case delete_page E ps of
              Return b ps' \<Rightarrow> if b then PageStore_reset E ps' else Return () ps'
            | Thrown ps' \<Rightarrow> Thrown ps'
            | Aborted \<Rightarrow> Aborted
            | Undefined \<Rightarrow> Undefined)
      else Return () ps)"
  by pat_completeness auto
termination
  by (relation "measure (\<lambda>(E, ps). length (pages ps))")
     (auto simp: delete_page_def Let_def split: list.splits if_splits option.splits)

declare PageStore_reset.simps [simp del]

text \<open>
  \<^verbatim>\<open>PageStore::~PageStore\<close>. With debugging on it prints every page left, one
  \<^verbatim>\<open>log_error\<close> line each, so it returns only if every \<open>Page_print\<close> does: \<open>None\<close> is the
  destructor that does not return.
\<close>

fun print_pages :: "Consts \<Rightarrow> Page list \<Rightarrow> event list \<Rightarrow> (unit, event list) outcome option" where
  "print_pages K [] tr = Some (Return () tr)"
| "print_pages K (pg # rest) tr =
     (case Page_print K pg [] of
        None \<Rightarrow> None
      | Some (Return u os) \<Rightarrow> print_pages K rest (tr @ [Log_error (Page_dump os)])
      | Some (Thrown os) \<Rightarrow> Some (Thrown tr)
      | Some Aborted \<Rightarrow> Some Aborted
      | Some Undefined \<Rightarrow> Some Undefined)"

definition PageStore_dtor :: "Env \<Rightarrow> PageStore \<Rightarrow> (unit, PageStore) outcome option" where
  "PageStore_dtor E ps =
     (let tried =
            (case PageStore_reset E ps of
               Return u ps1 \<Rightarrow>
                 Return ()
                   (case delete_thr ps1 of
                      None \<Rightarrow> ps1
                    | Some thr \<Rightarrow> ps1\<lparr>trace := trace ps1 @ [Pthread_join thr]\<rparr>)
             | Thrown ps1 \<Rightarrow> Return () (ps1\<lparr>trace := trace ps1 @ [Log_error In_dtor]\<rparr>)
             | Aborted \<Rightarrow> Aborted
             | Undefined \<Rightarrow> Undefined)
      in case tried of
           Return u ps2 \<Rightarrow>
             if length (pages ps2) > 0
             then let ps3 = ps2\<lparr>trace := trace ps2
                                   @ [Log_error (Could_not_delete (length (pages ps2)))]\<rparr>
                  in if ps_debug ps3 \<noteq> 0
                     then (case print_pages (cfg E) (pages ps3) (trace ps3) of
                             None \<Rightarrow> None
                           | Some (Return u tr) \<Rightarrow> Some (Return () (ps3\<lparr>trace := tr\<rparr>))
                           | Some (Thrown tr) \<Rightarrow> Some (Thrown (ps3\<lparr>trace := tr\<rparr>))
                           | Some Aborted \<Rightarrow> Some Aborted
                           | Some Undefined \<Rightarrow> Some Undefined)
                     else Some (Return () ps3)
             else Some (Return () ps2)
         | Thrown ps2 \<Rightarrow> Some (Thrown ps2)
         | Aborted \<Rightarrow> Some Aborted
         | Undefined \<Rightarrow> Some Undefined)"

text \<open>
  \<^verbatim>\<open>PageStore::new_page\<close>. The object of the new page gets the address \<open>count ps\<close>. The call
  of the constructor names neither nonce nor key: the nonce is a fresh random one and the key
  is the current key of the store. When \<^verbatim>\<open>malloc\<close> returns null for the key buffer, its header
  is written through a pointer made from null.
\<close>

definition new_page :: "Env \<Rightarrow> PageStore \<Rightarrow> nat \<Rightarrow> (unit, PageStore) outcome" where
  "new_page E ps sz =
     (let nm = make_page_name (base_name ps) (count ps)
      in if \<not> file_ok E nm (aligned_size (cfg E) sz) then Thrown ps
         else
           let page = Page_ctor (cfg E) (count ps) nm (rand_nonce E nm) (enc_key ps) sz
                        (ps_debug ps) (file_mem E nm) (file_bhs E nm);
               ps1 = ps\<lparr>pages := pages ps @ [page],
                        total_size := total_size ps + Page_size page,
                        current := Some (self page),
                        count := count ps + 1\<rparr>;
               key_buf_size = BH_aligned_size (cfg E) (length (enc_key ps1))
           in case find_page (self page) (pages ps1) of
                None \<Rightarrow> Undefined
              | Some cur \<Rightarrow>
                  (case Page_malloc (cfg E) cur key_buf_size of
                     Return r cur1 \<Rightarrow>
                       (case r of
                          None \<Rightarrow> Undefined
                        | Some off \<Rightarrow>
                            let cur2 = cur1\<lparr>bhs := (bhs cur1)(off := BH_release (bhs cur1 off))\<rparr>;
                                cur3 = Page_free cur2
                            in Return () (ps1\<lparr>pages := put_page cur3 (pages ps1)\<rparr>))
                   | Thrown cur1 \<Rightarrow> Undefined
                   | Aborted \<Rightarrow> Aborted
                   | Undefined \<Rightarrow> Undefined))"

text \<open>\<^verbatim>\<open>PageStore::set_enc_key\<close>.\<close>

definition set_enc_key :: "Env \<Rightarrow> PageStore \<Rightarrow> byte list \<Rightarrow> (unit, PageStore) outcome" where
  "set_enc_key E ps k =
     (let meta = meta_size (cfg E) (length (enc_key ps))
      in case new_page E ps (if meta > page_size ps then meta else page_size ps) of
           Return u ps1 \<Rightarrow> Return () (ps1\<lparr>enc_key := k\<rparr>)
         | Thrown ps1 \<Rightarrow> Thrown ps1
         | Aborted \<Rightarrow> Aborted
         | Undefined \<Rightarrow> Undefined)"

text \<open>
  \<^verbatim>\<open>PageStore::malloc_new\<close>. A pointer into a page is the address of the page and the offset
  in its mapping.
\<close>

type_synonym pointer = "nat \<times> nat"

definition malloc_new :: "Env \<Rightarrow> PageStore \<Rightarrow> nat \<Rightarrow> (pointer option, PageStore) outcome" where
  "malloc_new E ps sz =
     (if \<not> assert_size (cfg E) sz then Aborted
      else
        let meta = meta_size (cfg E) (length (enc_key ps));
            min_page_size = sz + meta
        in case new_page E ps (if page_size ps > min_page_size then page_size ps
                               else min_page_size) of
             Thrown ps1 \<Rightarrow>
               Return None (ps1\<lparr>trace := trace ps1 @ [Log_error Cannot_create_page]\<rparr>)
           | Aborted \<Rightarrow> Aborted
           | Undefined \<Rightarrow> Undefined
           | Return u ps1 \<Rightarrow>
               (case current ps1 of
                  None \<Rightarrow> Undefined
                | Some a \<Rightarrow>
                    (case find_page a (pages ps1) of
                       None \<Rightarrow> Undefined
                     | Some cur \<Rightarrow>
                         (case Page_malloc (cfg E) cur sz of
                            Return r cur1 \<Rightarrow>
                              let ps2 = ps1\<lparr>pages := put_page cur1 (pages ps1)\<rparr>;
                                  ret = map_option (\<lambda>off. (a, off)) r
                              in (case cleanup E ps2 of
                                    Return v ps3 \<Rightarrow> Return ret ps3
                                  | Thrown ps3 \<Rightarrow>
                                      Return ret
                                        (ps3\<lparr>trace := trace ps3 @ [Log_error Cannot_create_page]\<rparr>)
                                  | Aborted \<Rightarrow> Aborted
                                  | Undefined \<Rightarrow> Undefined)
                          | Thrown cur1 \<Rightarrow> Undefined
                          | Aborted \<Rightarrow> Aborted
                          | Undefined \<Rightarrow> Undefined))))"

text \<open>\<^verbatim>\<open>PageStore::malloc\<close>.\<close>

definition PageStore_malloc ::
  "Env \<Rightarrow> PageStore \<Rightarrow> nat \<Rightarrow> (pointer option, PageStore) outcome" where
  "PageStore_malloc E ps sz =
     (if \<not> assert_size (cfg E) sz then Aborted
      else case current ps of
             None \<Rightarrow> malloc_new E ps sz
           | Some a \<Rightarrow>
               (case find_page a (pages ps) of
                  None \<Rightarrow> Undefined
                | Some cur \<Rightarrow>
                    (case Page_malloc (cfg E) cur sz of
                       Return r cur1 \<Rightarrow>
                         let ps1 = ps\<lparr>pages := put_page cur1 (pages ps)\<rparr>
                         in (case r of
                               Some off \<Rightarrow> Return (Some (a, off)) ps1
                             | None \<Rightarrow>
                                 malloc_new E
                                   (ps1\<lparr>trace := trace ps1 @ [Drop_fs_cache (name cur1)]\<rparr>) sz)
                     | Thrown cur1 \<Rightarrow> Undefined
                     | Aborted \<Rightarrow> Aborted
                     | Undefined \<Rightarrow> Undefined)))"

text \<open>
  Modelled from the spec: \<^verbatim>\<open>PageStore::release\<close> (in \<^verbatim>\<open>gcache_page_store.hpp\<close>) releases a
  slot from its owning page, the page its header names, by decrementing the in-use count of
  that page.
\<close>

definition release :: "PageStore \<Rightarrow> pointer \<Rightarrow> (unit, PageStore) outcome" where
  "release ps ptr =
     (case find_page (fst ptr) (pages ps) of
        None \<Rightarrow> Undefined
      | Some holder \<Rightarrow>
          (case bh_ctx (bhs holder (snd ptr)) of
             None \<Rightarrow> Undefined
           | Some a \<Rightarrow>
               (case find_page a (pages ps) of
                  None \<Rightarrow> Undefined
                | Some page \<Rightarrow> Return () (ps\<lparr>pages := put_page (Page_free page) (pages ps)\<rparr>))))"

text \<open>
  \<^verbatim>\<open>PageStore::realloc\<close>, in a release build (no assertion is checked). \<^verbatim>\<open>bh->size\<close> is above
  \<^verbatim>\<open>sizeof(BufferHeader)\<close> for every buffer in use, where the unsigned subtraction of the
  source is the subtraction of the naturals.
\<close>

definition PageStore_realloc ::
  "Env \<Rightarrow> PageStore \<Rightarrow> pointer \<Rightarrow> nat \<Rightarrow> (pointer option, PageStore) outcome" where
  "PageStore_realloc E ps ptr sz =
     (if \<not> assert_size (cfg E) sz then Aborted
      else case find_page (fst ptr) (pages ps) of
             None \<Rightarrow> Undefined
           | Some holder \<Rightarrow>
               let bh = bhs holder (snd ptr)
               in (case bh_ctx bh of
                     None \<Rightarrow> Undefined
                   | Some a \<Rightarrow>
                       (case find_page a (pages ps) of
                          None \<Rightarrow> Undefined
                        | Some page \<Rightarrow>
                            (case Page_realloc page (snd ptr) sz of
                               Some off \<Rightarrow> Return (Some (a, off)) ps
                             | None \<Rightarrow>
                                 (case malloc_new E ps sz of
                                    Return ret ps1 \<Rightarrow>
                                      (case ret of
                                         None \<Rightarrow> Return None ps1
                                       | Some new_ptr \<Rightarrow>
                                           (case (find_page (fst ptr) (pages ps1),
                                                  find_page (fst new_ptr) (pages ps1)) of
                                              (Some src, Some dst) \<Rightarrow>
                                                let ptr_size = bh_size (bhs src (snd ptr)) - BH_SIZE (cfg E);
                                                    n = (if sz > ptr_size then ptr_size else sz);
                                                    dst1 = dst\<lparr>mem := (\<lambda>i. if snd new_ptr \<le> i \<and> i < snd new_ptr + n
                                                                          then mem src (snd ptr + (i - snd new_ptr))
                                                                          else mem dst i)\<rparr>;
                                                    ps2 = ps1\<lparr>pages := put_page dst1 (pages ps1)\<rparr>
                                                in (case find_page (fst ptr) (pages ps2) of
                                                      None \<Rightarrow> Undefined
                                                    | Some src1 \<Rightarrow>
                                                        let src2 = src1\<lparr>bhs := (bhs src1)
                                                                     (snd ptr := BH_release (bhs src1 (snd ptr)))\<rparr>;
                                                            ps3 = ps2\<lparr>pages := put_page src2 (pages ps2)\<rparr>
                                                        in (case release ps3 ptr of
                                                              Return u ps4 \<Rightarrow> Return (Some new_ptr) ps4
                                                            | Thrown ps4 \<Rightarrow> Thrown ps4
                                                            | Aborted \<Rightarrow> Aborted
                                                            | Undefined \<Rightarrow> Undefined))
                                            | _ \<Rightarrow> Undefined))
                                  | Thrown ps1 \<Rightarrow> Thrown ps1
                                  | Aborted \<Rightarrow> Aborted
                                  | Undefined \<Rightarrow> Undefined)))))"

text \<open>\<^verbatim>\<open>PageStore::set_debug\<close>; \<^verbatim>\<open>Page::set_debug\<close> stores the level in the page.\<close>

definition set_debug :: "Consts \<Rightarrow> PageStore \<Rightarrow> int \<Rightarrow> PageStore" where
  "set_debug K ps dbg =
     (let d = dbg AND DEBUG K
      in ps\<lparr>ps_debug := d, pages := map (\<lambda>p. p\<lparr>pg_debug := d\<rparr>) (pages ps)\<rparr>)"

section \<open>Sequences of calls\<close>

text \<open>
  The calls of the upstream allocator contract, each with the environment it runs in. A
  thrown exception leaves the store to its caller; after an abort or undefined behaviour
  there is no store any more.
\<close>

datatype call = Malloc nat | Realloc pointer nat | Free pointer | Set_enc_key "byte list"
  | Cleanup | Reset | Set_debug int

definition state_of :: "('v, PageStore) outcome \<Rightarrow> PageStore option" where
  "state_of r = (case r of Return v s \<Rightarrow> Some s | Thrown s \<Rightarrow> Some s | Aborted \<Rightarrow> None
                 | Undefined \<Rightarrow> None)"

fun do_call :: "Env \<Rightarrow> call \<Rightarrow> PageStore \<Rightarrow> PageStore option" where
  "do_call E (Malloc sz) ps = state_of (PageStore_malloc E ps sz)"
| "do_call E (Realloc ptr sz) ps = state_of (PageStore_realloc E ps ptr sz)"
| "do_call E (Free ptr) ps = state_of (release ps ptr)"
| "do_call E (Set_enc_key k) ps = state_of (set_enc_key E ps k)"
| "do_call E Cleanup ps = state_of (cleanup E ps)"
| "do_call E Reset ps = state_of (PageStore_reset E ps)"
| "do_call E (Set_debug dbg) ps = Some (set_debug (cfg E) ps dbg)"

fun run :: "(Env \<times> call) list \<Rightarrow> PageStore \<Rightarrow> PageStore option" where
  "run [] ps = Some ps"
| "run ((E, c) # cs) ps = (case do_call E c ps of None \<Rightarrow> None | Some ps' \<Rightarrow> run cs ps')"

section \<open>Predicates of the statements\<close>

text \<open>
  What holds of every store that calls have built: the counter is the sum of the sizes of the
  queued pages, no two queued pages share an address, every address was handed out by the
  page counter, and \<open>current\<close> is null or points into the queue.
\<close>

definition PageStore_inv :: "PageStore \<Rightarrow> bool" where
  "PageStore_inv ps \<longleftrightarrow>
     total_size ps = sum_list (map Page_size (pages ps))
     \<and> distinct (map self (pages ps))
     \<and> (\<forall>p \<in> set (pages ps). self p < count ps)
     \<and> (\<forall>a. current ps = Some a \<longrightarrow> a \<in> self ` set (pages ps))"

text \<open>
  \<open>popped n ps ps'\<close>: the store \<open>ps'\<close> is \<open>ps\<close> without its \<open>n\<close> oldest pages, none of which
  was in use; the counter went down by their sizes, \<open>current\<close> is null if it pointed to one of
  them, the configuration is untouched and the trace only grew.
\<close>

definition popped :: "nat \<Rightarrow> PageStore \<Rightarrow> PageStore \<Rightarrow> bool" where
  "popped n ps ps' \<longleftrightarrow>
     n \<le> length (pages ps)
     \<and> pages ps' = drop n (pages ps)
     \<and> (\<forall>p \<in> set (take n (pages ps)). pg_used p = 0)
     \<and> total_size ps' = total_size ps - sum_list (map Page_size (take n (pages ps)))
     \<and> current ps' = (case current ps of
                        None \<Rightarrow> None
                      | Some a \<Rightarrow> if a \<in> self ` set (take n (pages ps)) then None else Some a)
     \<and> count ps' = count ps \<and> base_name ps' = base_name ps \<and> enc_key ps' = enc_key ps
     \<and> keep_size ps' = keep_size ps \<and> page_size ps' = page_size ps
     \<and> keep_page ps' = keep_page ps \<and> ps_debug ps' = ps_debug ps
     \<and> prefix (trace ps) (trace ps')"

text \<open>The files whose removal a trace dispatched, in the order of dispatch.\<close>

fun removed_files :: "event list \<Rightarrow> string list" where
  "removed_files [] = []"
| "removed_files (Remove_file f # es) = f # removed_files es"
| "removed_files (e # es) = removed_files es"

text \<open>
  What the loop of \<open>cleanup\<close> has done when it ends with outcome \<open>r\<close>: it popped the \<open>n\<close>
  oldest pages, each while the retention predicate held; after a return the predicate fails
  or the oldest page is in use, and the files of the popped pages were dispatched for
  removal, oldest first; after a throw the thread for the page popped last could not be
  created.
\<close>

definition cleanup_post :: "Env \<Rightarrow> PageStore \<Rightarrow> (unit, PageStore) outcome \<Rightarrow> bool" where
  "cleanup_post E ps r \<longleftrightarrow>
     (\<exists>n ps'. (r = Return () ps' \<or> r = Thrown ps')
        \<and> popped n ps ps'
        \<and> (\<forall>k<n. keep_size ps < total_size ps - sum_list (map Page_size (take k (pages ps))))
        \<and> (r = Return () ps' \<longrightarrow>
              (\<not> page_cleanup_needed ps' \<or> (pages ps' \<noteq> [] \<and> 0 < pg_used (hd (pages ps'))))
              \<and> removed_files (trace ps') = removed_files (trace ps) @ map name (take n (pages ps))
              \<and> (\<forall>p \<in> set (take n (pages ps)). thread_err E (name p) = 0))
        \<and> (r = Thrown ps' \<longrightarrow>
              0 < n \<and> thread_err E (name (pages ps ! (n - 1))) \<noteq> 0
              \<and> removed_files (trace ps')
                  = removed_files (trace ps) @ map name (take (n - 1) (pages ps))))"

text \<open>
  What the loop of \<open>PageStore_reset\<close> has done when it ends with outcome \<open>r\<close>: as for
  \<open>cleanup\<close>, but after a return the queue is empty or its oldest page is in use; after a
  throw the threads for the pages popped before the last one had been created.
\<close>

definition reset_post :: "Env \<Rightarrow> PageStore \<Rightarrow> (unit, PageStore) outcome \<Rightarrow> bool" where
  "reset_post E ps r \<longleftrightarrow>
     (\<exists>n ps'. (r = Return () ps' \<or> r = Thrown ps')
        \<and> popped n ps ps'
        \<and> (r = Return () ps' \<longrightarrow>
              (pages ps' = [] \<or> 0 < pg_used (hd (pages ps')))
              \<and> removed_files (trace ps') = removed_files (trace ps) @ map name (take n (pages ps))
              \<and> (\<forall>p \<in> set (take n (pages ps)). thread_err E (name p) = 0))
        \<and> (r = Thrown ps' \<longrightarrow>
              0 < n \<and> thread_err E (name (pages ps ! (n - 1))) \<noteq> 0
              \<and> removed_files (trace ps')
                  = removed_files (trace ps) @ map name (take (n - 1) (pages ps))
              \<and> (\<forall>p \<in> set (take (n - 1) (pages ps)). thread_err E (name p) = 0)))"

text \<open>
  The page that \<open>new_page\<close> appends when the file can be created and the key buffer fits:
  the constructed page with the key buffer carved out, released and no longer counted.
\<close>

definition fresh_page :: "Env \<Rightarrow> PageStore \<Rightarrow> nat \<Rightarrow> Page" where
  "fresh_page E ps sz =
     (let nm = make_page_name (base_name ps) (count ps);
          p0 = Page_ctor (cfg E) (count ps) nm (rand_nonce E nm) (enc_key ps) sz (ps_debug ps)
                 (file_mem E nm) (file_bhs E nm);
          key_buf = aligned_size (cfg E) (BH_aligned_size (cfg E) (length (enc_key ps)))
      in p0\<lparr>bhs := (bhs p0)(pg_next p0 := BH_release (bhs p0 (pg_next p0))),
            pg_next := pg_next p0 + key_buf, pg_space := pg_space p0 - key_buf, pg_used := 0\<rparr>)"

text \<open>The store with that page appended and made current.\<close>

definition with_page :: "PageStore \<Rightarrow> Page \<Rightarrow> PageStore" where
  "with_page ps p =
     ps\<lparr>pages := pages ps @ [p], total_size := total_size ps + Page_size p,
        current := Some (self p), count := count ps + 1\<rparr>"

text \<open>The page a successful allocation of \<open>sz\<close> bytes leaves.\<close>

definition bumped :: "Consts \<Rightarrow> Page \<Rightarrow> nat \<Rightarrow> Page" where
  "bumped K p sz =
     p\<lparr>pg_space := pg_space p - aligned_size K sz, pg_next := pg_next p + aligned_size K sz,
       pg_used := pg_used p + 1\<rparr>"

text \<open>The size \<open>malloc_new\<close> asks of a new page for a request of \<open>sz\<close> bytes.\<close>

definition wanted_size :: "Env \<Rightarrow> PageStore \<Rightarrow> nat \<Rightarrow> nat" where
  "wanted_size E ps sz = max (page_size ps) (sz + meta_size (cfg E) (length (enc_key ps)))"

text \<open>
  The store after \<open>malloc_new\<close> created a page for a request of \<open>sz\<close> bytes and allocated
  them there, before retention cleanup.
\<close>

definition grown :: "Env \<Rightarrow> PageStore \<Rightarrow> nat \<Rightarrow> PageStore" where
  "grown E ps sz =
     with_page ps (bumped (cfg E) (fresh_page E ps (wanted_size E ps sz)) sz)"

text \<open>
  The limits a configuration has to respect for a new page to hold its own metadata: a
  positive alignment, and a key whose buffer passes the size-limit check.
\<close>

definition config_ok :: "Env \<Rightarrow> PageStore \<Rightarrow> bool" where
  "config_ok E ps \<longleftrightarrow>
     0 < ALIGNMENT (cfg E) \<and> BH_aligned_size (cfg E) (length (enc_key ps)) \<le> MAX_SIZE (cfg E)"

text \<open>
  \<open>has_room E ps sz\<close>: the store has a current page whose remaining space takes the aligned
  size. \<open>retired E ps\<close>: the store after its current page failed an allocation, the page
  closed and its cache dropped; the store itself when there is no current page.
\<close>

definition has_room :: "Env \<Rightarrow> PageStore \<Rightarrow> nat \<Rightarrow> bool" where
  "has_room E ps sz \<longleftrightarrow>
     (case current ps of
        None \<Rightarrow> False
      | Some a \<Rightarrow> (case find_page a (pages ps) of
                    None \<Rightarrow> False
                  | Some cur \<Rightarrow> aligned_size (cfg E) sz \<le> pg_space cur))"

definition retired :: "Env \<Rightarrow> PageStore \<Rightarrow> PageStore" where
  "retired E ps =
     (case current ps of
        None \<Rightarrow> ps
      | Some a \<Rightarrow> (case find_page a (pages ps) of
                    None \<Rightarrow> ps
                  | Some cur \<Rightarrow>
                      ps\<lparr>pages := put_page (Page_close (cfg E) cur) (pages ps),
                         trace := trace ps @ [Drop_fs_cache (name cur)]\<rparr>))"

section \<open>Concrete data\<close>

text \<open>
  Values for the constants (an alignment of 8 bytes, a header of 24 bytes, a nonce of 128
  bits), a nonce, and two initial contents of a mapping: a fresh file of zeros, and a file left
  over by an earlier run.
\<close>

definition K0 :: Consts where
  "K0 = \<lparr>ALIGNMENT = 8, BH_SIZE = 24, NONCE_SIZE = 16, MAX_SIZE = 1000000, DEBUG = 4\<rparr>"

definition nonce0 :: Nonce where
  "nonce0 = [1, 2, 3, 4, 5, 6, 7, 8, 9, 10, 11, 12, 13, 14, 15, 16]"

definition zero_mem :: memory where
  "zero_mem = (\<lambda>i. 0)"

definition zero_bhs :: "nat \<Rightarrow> BufferHeader" where
  "zero_bhs = (\<lambda>off. BH_clear)"

definition stale_bhs :: "nat \<Rightarrow> BufferHeader" where
  "stale_bhs = (\<lambda>off. \<lparr>bh_size = 40, bh_ctx = None, bh_seqno_g = 7, bh_released = True\<rparr>)"

text \<open>A page of 64 bytes as the constructor leaves it, on a fresh and on a stale file.\<close>

definition page_a :: Page where
  "page_a = Page_ctor K0 0 ''gcache.page.000000'' nonce0 [] 64 0 zero_mem zero_bhs"

definition page_s :: Page where
  "page_s = Page_ctor K0 0 ''gcache.page.000000'' nonce0 [] 64 0 zero_mem stale_bhs"

text \<open>The same pages after one buffer of 40 bytes was allocated and released again.\<close>

definition page_b :: Page where
  "page_b = (case Page_malloc K0 page_a 40 of Return r p \<Rightarrow> Page_free p | _ \<Rightarrow> page_a)"

definition page_t :: Page where
  "page_t = (case Page_malloc K0 page_s 40 of Return r p \<Rightarrow> p | _ \<Rightarrow> page_s)"

text \<open>
  An environment in which every file and every thread can be created, one in which no file
  can be created, and one in which no thread can be created.
\<close>

definition E0 :: Env where
  "E0 = \<lparr>cfg = K0, file_ok = (\<lambda>nm sz. True), file_mem = (\<lambda>nm. zero_mem),
          file_bhs = (\<lambda>nm. zero_bhs), rand_nonce = (\<lambda>nm. nonce0), thread_err = (\<lambda>nm. 0)\<rparr>"

definition E_nofile :: Env where
  "E_nofile = E0\<lparr>file_ok := (\<lambda>nm sz. False)\<rparr>"

definition E_nothread :: Env where
  "E_nothread = E0\<lparr>thread_err := (\<lambda>nm. 11)\<rparr>"

text \<open>
  A store with pages of 64 bytes that keeps nothing, and the stores that calls make of it.
\<close>

definition after :: "('v, PageStore) outcome \<Rightarrow> PageStore" where
  "after r = (case state_of r of Some s \<Rightarrow> s | None \<Rightarrow> PageStore_ctor K0 [] 0 0 0 False)"

definition store0 :: PageStore where
  "store0 = PageStore_ctor K0 [] 0 64 0 False"

definition page1 :: Page where
  "page1 = bumped K0 (fresh_page E0 store0 64) 8"

definition store1 :: PageStore where
  "store1 = after (PageStore_malloc E0 store0 8)"

definition store2 :: PageStore where
  "store2 = after (set_enc_key E0 store1 [])"

text \<open>
  \<open>store1f\<close>: \<open>store1\<close> after a request of 24 bytes that its page cannot take, made while no
  file can be created. \<open>store_k\<close>: the new store after a key change.
\<close>

definition store1f :: PageStore where
  "store1f = after (PageStore_malloc E_nofile store1 24)"

definition page2 :: Page where
  "page2 = fresh_page E0 store1 64"

definition page_k :: Page where
  "page_k = fresh_page E0 store0 64"

definition store_k :: PageStore where
  "store_k = after (set_enc_key E0 store0 [])"

definition store_k_popped :: PageStore where
  "store_k_popped = store_k\<lparr>pages := [], total_size := 0, current := None\<rparr>"

text \<open>\<open>store2d\<close>: \<open>store2\<close> with debugging switched on.\<close>

definition store2d :: PageStore where
  "store2d = set_debug K0 store2 4"

text \<open>
  The caller of \<open>PageStore_malloc\<close> fills in the header and the payload of the slot it got;
  the code that does so is not part of the sources. \<open>store1h\<close> is \<open>store1\<close> with the buffer
  of its page filled in: a slot of 32 bytes owned by page 0, not released, with a payload of
  8 bytes.
\<close>

definition fill_slot :: "PageStore \<Rightarrow> pointer \<Rightarrow> BufferHeader \<Rightarrow> byte list \<Rightarrow> PageStore" where
  "fill_slot ps ptr bh payload =
     (case find_page (fst ptr) (pages ps) of
        None \<Rightarrow> ps
      | Some p \<Rightarrow>
          ps\<lparr>pages := put_page
                (p\<lparr>bhs := (bhs p)(snd ptr := bh),
                   mem := (\<lambda>i. if snd ptr \<le> i \<and> i < snd ptr + length payload
                                then payload ! (i - snd ptr) else mem p i)\<rparr>)
                (pages ps)\<rparr>)"

definition header1 :: BufferHeader where
  "header1 = \<lparr>bh_size = 32, bh_ctx = Some 0, bh_seqno_g = 0, bh_released = False\<rparr>"

definition payload1 :: "byte list" where
  "payload1 = [161, 162, 163, 164, 165, 166, 167, 168]"

definition page1h :: Page where
  "page1h = page1\<lparr>bhs := (bhs page1)(40 := header1),
                   mem := (\<lambda>i. if 40 \<le> i \<and> i < 40 + length payload1
                                then payload1 ! (i - 40) else mem page1 i)\<rparr>"

definition store1h :: PageStore where
  "store1h = fill_slot store1 (0, 40) header1 payload1"

section \<open>Alignment\<close>

lemma aligned_size_ge:
  assumes "0 < ALIGNMENT K"
  shows "s \<le> aligned_size K s"
proof -
  let ?a = "ALIGNMENT K"
  have "(s + ?a - 1) mod ?a < ?a" using assms by simp
  moreover have "(s + ?a - 1) div ?a * ?a + (s + ?a - 1) mod ?a = s + ?a - 1" by simp
  ultimately show ?thesis unfolding aligned_size_def by linarith
qed

lemma aligned_size_dvd: "ALIGNMENT K dvd aligned_size K s"
  by (simp add: aligned_size_def)

lemma aligned_size_add:
  assumes "0 < ALIGNMENT K" "ALIGNMENT K dvd m"
  shows "aligned_size K (s + m) = aligned_size K s + m"
proof -
  from assms(2) obtain k where m: "m = k * ALIGNMENT K" by (auto simp: dvd_def mult.commute)
  have e: "s + m + ALIGNMENT K - 1 = (s + ALIGNMENT K - 1) + k * ALIGNMENT K"
    using assms(1) m by linarith
  have "((s + ALIGNMENT K - 1) + k * ALIGNMENT K) div ALIGNMENT K
          = k + (s + ALIGNMENT K - 1) div ALIGNMENT K"
    using assms(1) by (intro div_mult_self1) simp
  then show ?thesis
    unfolding aligned_size_def e by (simp add: m add_mult_distrib)
qed

lemma aligned_size_0: "aligned_size K 0 = 0"
  by (cases "ALIGNMENT K = 0") (simp_all add: aligned_size_def)

lemma aligned_size_id:
  assumes "0 < ALIGNMENT K" "ALIGNMENT K dvd s"
  shows "aligned_size K s = s"
  using aligned_size_add [OF assms, of 0] by (simp add: aligned_size_0)

lemma aligned_size_mono: "a \<le> b \<Longrightarrow> aligned_size K a \<le> aligned_size K b"
  unfolding aligned_size_def by (intro mult_le_mono1 div_le_mono) simp

lemma aligned_size_le_aligned:
  assumes "0 < ALIGNMENT K" "ALIGNMENT K dvd m" "s \<le> m"
  shows "aligned_size K s \<le> m"
  using aligned_size_mono [OF assms(3), of K] aligned_size_id [OF assms(1,2)] by simp

section \<open>Nonce\<close>

lemma Nonce_read_write:
  assumes "length d = NONCE_SIZE K"
  shows "Nonce_read K (fst (Nonce_write K d m ptr sz)) ptr sz
           = take (min (NONCE_SIZE K) sz) d @ replicate (NONCE_SIZE K - min (NONCE_SIZE K) sz) 0"
  using assms
  by (auto simp: Nonce_read_def Nonce_write_def Let_def nonce_serial_size_def list_eq_iff_nth_eq nth_append)

text \<open>
  C10. A nonce written into a buffer of \<open>sz\<close> bytes at \<open>ptr\<close> writes the first
  \<open>min NONCE_SIZE sz\<close> bytes of the nonce there, touches no other byte and returns that count.
  The nonce read back from the buffer has the full width, agrees with the original on the
  bytes below \<open>sz\<close> and is zero above; when the buffer is at least as wide as a nonce the
  count is the width and the nonce read back is the original.
\<close>

theorem Nonce_roundtrip:
  assumes "length d = NONCE_SIZE K"
  shows "snd (Nonce_write K d m ptr sz) = min (NONCE_SIZE K) sz
       \<and> (\<forall>i < min (NONCE_SIZE K) sz. fst (Nonce_write K d m ptr sz) (ptr + i) = d ! i)
       \<and> (\<forall>i. i < ptr \<or> ptr + min (NONCE_SIZE K) sz \<le> i
              \<longrightarrow> fst (Nonce_write K d m ptr sz) i = m i)
       \<and> length (Nonce_read K (fst (Nonce_write K d m ptr sz)) ptr sz) = NONCE_SIZE K
       \<and> (\<forall>i < NONCE_SIZE K. Nonce_read K (fst (Nonce_write K d m ptr sz)) ptr sz ! i
              = (if i < sz then d ! i else 0))
       \<and> (NONCE_SIZE K \<le> sz \<longrightarrow> Nonce_read K (fst (Nonce_write K d m ptr sz)) ptr sz = d)"
proof -
  let ?k = "min (NONCE_SIZE K) sz"
  let ?w = "Nonce_write K d m ptr sz"
  have r: "Nonce_read K (fst ?w) ptr sz = take ?k d @ replicate (NONCE_SIZE K - ?k) 0"
    by (rule Nonce_read_write [OF assms])
  have 1: "snd ?w = ?k"
    by (simp add: Nonce_write_def Let_def nonce_serial_size_def)
  have 2: "\<forall>i < ?k. fst ?w (ptr + i) = d ! i"
    by (simp add: Nonce_write_def Let_def nonce_serial_size_def)
  have 3: "\<forall>i. i < ptr \<or> ptr + ?k \<le> i \<longrightarrow> fst ?w i = m i"
    by (auto simp: Nonce_write_def Let_def nonce_serial_size_def)
  have 4: "length (Nonce_read K (fst ?w) ptr sz) = NONCE_SIZE K"
    by (simp add: Nonce_read_def)
  have 5: "\<forall>i < NONCE_SIZE K. Nonce_read K (fst ?w) ptr sz ! i = (if i < sz then d ! i else 0)"
    using assms by (auto simp: r nth_append)
  have 6: "NONCE_SIZE K \<le> sz \<longrightarrow> Nonce_read K (fst ?w) ptr sz = d"
    using assms by (simp add: r min_def)
  from 1 2 3 4 5 6 show ?thesis by blast
qed

theorem Nonce_roundtrip_witness:
  "length nonce0 = NONCE_SIZE K0
   \<and> snd (Nonce_write K0 nonce0 zero_mem 3 20) = 16
   \<and> Nonce_read K0 (fst (Nonce_write K0 nonce0 zero_mem 3 20)) 3 20 = nonce0
   \<and> snd (Nonce_write K0 nonce0 zero_mem 3 5) = 5
   \<and> Nonce_read K0 (fst (Nonce_write K0 nonce0 zero_mem 3 5)) 3 5 ! 4 = 5
   \<and> Nonce_read K0 (fst (Nonce_write K0 nonce0 zero_mem 3 5)) 3 5 ! 5 = 0"
proof -
  have h: "length nonce0 = NONCE_SIZE K0"
    by (simp add: nonce0_def K0_def)
  have n: "NONCE_SIZE K0 = 16"
    by (simp add: K0_def)
  show ?thesis
    using h Nonce_roundtrip [OF h, of zero_mem 3 20] Nonce_roundtrip [OF h, of zero_mem 3 5]
    by (simp add: n nonce0_def)
qed

section \<open>Page\<close>

lemma K0_simps:
  "ALIGNMENT K0 = 8" "BH_SIZE K0 = 24" "NONCE_SIZE K0 = 16" "MAX_SIZE K0 = 1000000"
  "DEBUG K0 = 4"
  by (simp_all add: K0_def)

lemma aligned_size_K0: "aligned_size K0 s = (s + 7) div 8 * 8"
  by (simp add: aligned_size_def K0_simps)

lemma Page_ctor_no_wrap:
  assumes "0 < ALIGNMENT K"
  shows "aligned_size K (snd (Nonce_write K n m0 0 (aligned_size K sz))) \<le> aligned_size K sz"
  using assms
  by (intro aligned_size_le_aligned)
     (simp_all add: Nonce_write_def Let_def nonce_serial_size_def aligned_size_dvd)

lemma Page_reset_no_wrap:
  assumes "0 < ALIGNMENT K" "ALIGNMENT K dvd msize p" "pg_space p \<le> msize p"
  shows "aligned_size K (snd (Nonce_write K (pg_nonce p) (mem p) (pg_next p) (pg_space p)))
           \<le> msize p"
  using assms
  by (intro aligned_size_le_aligned)
     (simp_all add: Nonce_write_def Let_def nonce_serial_size_def)

lemma page_a_fields:
  "pg_next page_a = 16" "pg_space page_a = 48" "pg_used page_a = 0" "msize page_a = 64"
  "pg_nonce page_a = nonce0" "bhs page_a = zero_bhs"
  by (simp_all add: page_a_def Page_ctor_def Nonce_write_def nonce_serial_size_def K0_simps
        aligned_size_K0 Let_def)

lemma page_b_fields:
  "pg_next page_b = 56" "pg_space page_b = 8" "pg_used page_b = 0" "msize page_b = 64"
  "pg_nonce page_b = nonce0"
  by (simp_all add: page_b_def Page_malloc_def Page_free_def assert_size_def
        page_a_fields K0_simps aligned_size_K0 Let_def)

text \<open>
  C1. For a size that passes the limit check: when the aligned size fits the remaining space,
  \<open>Page_malloc\<close> returns the cursor, moves the cursor up and the space down by the aligned
  size and counts one more buffer in use, touching neither bytes nor headers; otherwise it
  returns null with cursor, space, in-use count and bytes as they were, and no header changed
  but the one at the cursor, which is the cleared sentinel when a header still fits.
\<close>

theorem Page_malloc_spec:
  assumes "assert_size K sz"
  shows "(aligned_size K sz \<le> pg_space p \<longrightarrow>
            (\<exists>p'. Page_malloc K p sz = Return (Some (pg_next p)) p'
                 \<and> pg_next p' = pg_next p + aligned_size K sz
                 \<and> pg_space p' = pg_space p - aligned_size K sz
                 \<and> pg_used p' = pg_used p + 1
                 \<and> mem p' = mem p \<and> bhs p' = bhs p))
       \<and> (pg_space p < aligned_size K sz \<longrightarrow>
            (\<exists>p'. Page_malloc K p sz = Return None p'
                 \<and> pg_next p' = pg_next p \<and> pg_space p' = pg_space p \<and> pg_used p' = pg_used p
                 \<and> mem p' = mem p
                 \<and> (\<forall>off. off \<noteq> pg_next p \<longrightarrow> bhs p' off = bhs p off)
                 \<and> bhs p' (pg_next p) = (if BH_SIZE K \<le> pg_space p then BH_clear
                                          else bhs p (pg_next p))))"
  using assms by (simp add: Page_malloc_def Page_close_def Let_def)

theorem Page_malloc_spec_witness:
  "assert_size K0 40 \<and> aligned_size K0 40 \<le> pg_space page_a
   \<and> (\<exists>p'. Page_malloc K0 page_a 40 = Return (Some 16) p'
          \<and> pg_next p' = 56 \<and> pg_space p' = 8 \<and> pg_used p' = 1)
   \<and> assert_size K0 100 \<and> pg_space page_a < aligned_size K0 100
   \<and> (\<exists>p'. Page_malloc K0 page_a 100 = Return None p'
          \<and> pg_next p' = 16 \<and> pg_space p' = 48 \<and> pg_used p' = 0 \<and> bhs p' 16 = BH_clear)"
proof -
  have h1: "assert_size K0 40" and h2: "assert_size K0 100"
    by (simp_all add: assert_size_def K0_simps)
  have a: "aligned_size K0 40 = 40" "aligned_size K0 100 = 104"
    by (simp_all add: aligned_size_K0)
  show ?thesis
    using h1 h2 Page_malloc_spec [OF h1, of page_a] Page_malloc_spec [OF h2, of page_a]
    by (auto simp: a page_a_fields K0_simps)
qed

text \<open>
  C5. A page of 64 bytes has 48 bytes of space and its cursor at 16 after construction. After
  a buffer of 40 bytes was allocated and released, \<open>Page_reset\<close> writes the first 8 bytes of
  the nonce at offset 56, the old cursor, and leaves 56 bytes of space with the cursor at 8,
  inside the nonce at the head of the mapping.
\<close>

theorem Page_reset_not_as_constructed:
  "(\<exists>p'. Page_reset K0 page_b = Return () p'
        \<and> pg_space p' = 56 \<and> pg_next p' = 8
        \<and> mem page_b 56 = 0 \<and> mem p' 56 = 1 \<and> mem p' 63 = 8)
   \<and> pg_space page_a = 48 \<and> pg_next page_a = 16"
  by (simp add: Page_reset_def page_b_fields page_a_fields Nonce_write_def nonce_serial_size_def
        K0_simps aligned_size_K0 Let_def nonce0_def)
     (simp add: page_b_def Page_malloc_def Page_free_def assert_size_def
        page_a_def Page_ctor_def Nonce_write_def nonce_serial_size_def K0_simps
        aligned_size_K0 Let_def zero_mem_def)

section \<open>Pages in the queue\<close>

lemma find_page_Some: "find_page a ps = Some p \<Longrightarrow> p \<in> set ps \<and> self p = a"
  by (induction ps) (auto split: if_splits)

lemma find_page_None: "find_page a ps = None \<longleftrightarrow> a \<notin> self ` set ps"
  by (induction ps) auto

lemma find_page_distinct:
  "distinct (map self ps) \<Longrightarrow> p \<in> set ps \<Longrightarrow> find_page (self p) ps = Some p"
  by (induction ps) (auto simp: rev_image_eqI)

lemma find_page_append:
  "find_page a (ps @ qs) = (case find_page a ps of Some p \<Rightarrow> Some p | None \<Rightarrow> find_page a qs)"
  by (induction ps) auto

lemma put_page_self: "map self (put_page q ps) = map self ps"
  by (induction ps) (auto simp: put_page_def)

lemma put_page_length: "length (put_page q ps) = length ps"
  by (simp add: put_page_def)

lemma in_put_page: "q \<in> set (put_page r xs) \<Longrightarrow> q = r \<or> q \<in> set xs"
  by (auto simp: put_page_def split: if_splits)

lemma put_page_absent: "self q \<notin> self ` set ps \<Longrightarrow> put_page q ps = ps"
  by (induction ps) (auto simp: put_page_def)

lemma put_page_append: "put_page q (ps @ qs) = put_page q ps @ put_page q qs"
  by (simp add: put_page_def)

lemma find_put_page:
  "find_page a (put_page q ps)
     = (if a = self q \<and> a \<in> self ` set ps then Some q else find_page a ps)"
  by (induction ps) (auto simp: put_page_def)

lemma put_page_sizes:
  assumes "distinct (map self ps)" "find_page (self q) ps = Some p" "msize q = msize p"
  shows "map Page_size (put_page q ps) = map Page_size ps"
  using assms
proof (induction ps)
  case Nil
  then show ?case by simp
next
  case (Cons x xs)
  show ?case
  proof (cases "self x = self q")
    case True
    with Cons.prems have "self q \<notin> self ` set xs" "x = p" by auto
    then have "put_page q (x # xs) = q # xs"
      using True put_page_absent [of q xs] by (simp add: put_page_def)
    with \<open>x = p\<close> Cons.prems(3) show ?thesis
      by (simp add: Page_size_def)
  next
    case False
    with Cons show ?thesis by (simp add: put_page_def)
  qed
qed

section \<open>Deleting the oldest page\<close>

lemma delete_page_empty: "pages ps = [] \<Longrightarrow> delete_page E ps = Undefined"
  by (simp add: delete_page_def)

lemma delete_page_in_use:
  "pages ps = p # rest \<Longrightarrow> 0 < pg_used p \<Longrightarrow> delete_page E ps = Return False ps"
  by (simp add: delete_page_def)

lemma delete_page_False: "delete_page E ps = Return False ps' \<Longrightarrow>
    ps' = ps \<and> pages ps \<noteq> [] \<and> 0 < pg_used (hd (pages ps))"
  by (auto simp: delete_page_def Let_def split: list.splits if_splits)

lemma delete_page_not_Aborted: "delete_page E ps \<noteq> Aborted"
  by (auto simp: delete_page_def Let_def split: list.splits if_splits)

lemma delete_page_Undefined: "delete_page E ps = Undefined \<longleftrightarrow> pages ps = []"
  by (auto simp: delete_page_def Let_def split: list.splits if_splits)

lemma popped_0: "popped 0 ps ps"
  by (simp add: popped_def split: option.splits)

lemma delete_page_popped:
  assumes "delete_page E ps = Return True ps' \<or> delete_page E ps = Thrown ps'"
  shows "popped (Suc 0) ps ps'"
  using assms
  by (auto simp: delete_page_def popped_def Let_def take_Suc
           split: list.splits if_splits option.splits)

lemma delete_page_True_popped: "delete_page E ps = Return True ps' \<Longrightarrow> popped (Suc 0) ps ps'"
  using delete_page_popped [of E ps ps'] by simp

lemma delete_page_Thrown_popped: "delete_page E ps = Thrown ps' \<Longrightarrow> popped (Suc 0) ps ps'"
  using delete_page_popped [of E ps ps'] by simp

lemma popped_trans:
  assumes "popped (Suc 0) ps ps1" "popped n ps1 ps2"
  shows "popped (Suc n) ps ps2"
proof -
  from assms(1) obtain p rest where ps: "pages ps = p # rest" "pages ps1 = rest"
    by (cases "pages ps") (auto simp: popped_def)
  from assms have tr: "prefix (trace ps) (trace ps2)"
    by (auto simp: popped_def intro: prefix_order.trans)
  from assms tr show ?thesis
    unfolding popped_def
    by (simp add: ps split: option.splits if_splits)
qed


lemma popped_inv_total:
  assumes "popped n ps ps'" "total_size ps = sum_list (map Page_size (pages ps))"
  shows "total_size ps' = sum_list (map Page_size (pages ps'))"
proof -
  have "sum_list (map Page_size (pages ps))
          = sum_list (map Page_size (take n (pages ps))) + sum_list (map Page_size (drop n (pages ps)))"
    by (metis append_take_drop_id map_append sum_list.append)
  with assms show ?thesis by (simp add: popped_def)
qed

lemma popped_total_Suc:
  assumes "popped (Suc 0) ps ps1" "total_size ps = sum_list (map Page_size (pages ps))"
  shows "total_size ps1 - sum_list (map Page_size (take k (pages ps1)))
           = total_size ps - sum_list (map Page_size (take (Suc k) (pages ps)))"
proof -
  from assms(1) obtain p rest where ps: "pages ps = p # rest" "pages ps1 = rest"
    by (cases "pages ps") (auto simp: popped_def)
  from assms(1) show ?thesis by (simp add: popped_def ps)
qed

lemma cleanup_needed_nonempty:
  assumes "page_cleanup_needed ps" "total_size ps = sum_list (map Page_size (pages ps))"
  shows "pages ps \<noteq> []"
  using assms by (auto simp: page_cleanup_needed_def)

lemma removed_files_append: "removed_files (xs @ ys) = removed_files xs @ removed_files ys"
  by (induction xs rule: removed_files.induct) auto

lemma delete_page_True_trace:
  assumes "delete_page E ps = Return True ps'"
  shows "removed_files (trace ps') = removed_files (trace ps) @ [name (hd (pages ps))]
         \<and> thread_err E (name (hd (pages ps))) = 0"
  using assms
  by (auto simp: delete_page_def Let_def removed_files_append
           split: list.splits if_splits option.splits)

lemma delete_page_Thrown_trace:
  assumes "delete_page E ps = Thrown ps'"
  shows "removed_files (trace ps') = removed_files (trace ps)
         \<and> thread_err E (name (hd (pages ps))) \<noteq> 0 \<and> delete_thr ps' = None"
  using assms
  by (auto simp: delete_page_def Let_def removed_files_append
           split: list.splits if_splits option.splits)

lemma cleanup_post_step:
  assumes d: "delete_page E ps = Return True ps1"
    and inv: "total_size ps = sum_list (map Page_size (pages ps))"
    and need: "page_cleanup_needed ps"
    and post: "cleanup_post E ps1 r"
  shows "cleanup_post E ps r"
proof -
  from d have p1: "popped (Suc 0) ps ps1" by (rule delete_page_True_popped)
  from p1 obtain p rest where ps: "pages ps = p # rest" "pages ps1 = rest"
    by (cases "pages ps") (auto simp: popped_def)
  from p1 have k1: "keep_size ps1 = keep_size ps" by (simp add: popped_def)
  from delete_page_True_trace [OF d] ps
  have tr: "removed_files (trace ps1) = removed_files (trace ps) @ [name p]"
    and te: "thread_err E (name p) = 0" by simp_all
  from post obtain n ps' where
    r: "r = Return () ps' \<or> r = Thrown ps'"
    and pn: "popped n ps1 ps'"
    and ks: "\<forall>k<n. keep_size ps1 < total_size ps1 - sum_list (map Page_size (take k (pages ps1)))"
    and ret: "r = Return () ps' \<longrightarrow>
              (\<not> page_cleanup_needed ps' \<or> (pages ps' \<noteq> [] \<and> 0 < pg_used (hd (pages ps'))))
              \<and> removed_files (trace ps') = removed_files (trace ps1) @ map name (take n (pages ps1))
              \<and> (\<forall>p \<in> set (take n (pages ps1)). thread_err E (name p) = 0)"
    and thr: "r = Thrown ps' \<longrightarrow>
              0 < n \<and> thread_err E (name (pages ps1 ! (n - 1))) \<noteq> 0
              \<and> removed_files (trace ps')
                  = removed_files (trace ps1) @ map name (take (n - 1) (pages ps1))"
    unfolding cleanup_post_def by blast
  have a: "popped (Suc n) ps ps'" using p1 pn by (rule popped_trans)
  have b: "\<forall>k<Suc n. keep_size ps < total_size ps - sum_list (map Page_size (take k (pages ps)))"
  proof (intro allI impI)
    fix k assume "k < Suc n"
    show "keep_size ps < total_size ps - sum_list (map Page_size (take k (pages ps)))"
    proof (cases k)
      case 0
      with need show ?thesis by (simp add: page_cleanup_needed_def)
    next
      case (Suc j)
      with \<open>k < Suc n\<close> ks have "keep_size ps1 < total_size ps1 - sum_list (map Page_size (take j (pages ps1)))"
        by simp
      with popped_total_Suc [OF p1 inv, of j] k1 Suc show ?thesis by simp
    qed
  qed
  have c: "r = Return () ps' \<longrightarrow>
              (\<not> page_cleanup_needed ps' \<or> (pages ps' \<noteq> [] \<and> 0 < pg_used (hd (pages ps'))))
              \<and> removed_files (trace ps') = removed_files (trace ps) @ map name (take (Suc n) (pages ps))
              \<and> (\<forall>p \<in> set (take (Suc n) (pages ps)). thread_err E (name p) = 0)"
    using ret tr te by (simp add: ps)
  have e: "r = Thrown ps' \<longrightarrow>
              0 < Suc n \<and> thread_err E (name (pages ps ! (Suc n - 1))) \<noteq> 0
              \<and> removed_files (trace ps')
                  = removed_files (trace ps) @ map name (take (Suc n - 1) (pages ps))"
  proof
    assume t: "r = Thrown ps'"
    with thr obtain m where m: "n = Suc m" by (cases n) auto
    from t thr tr show "0 < Suc n \<and> thread_err E (name (pages ps ! (Suc n - 1))) \<noteq> 0
              \<and> removed_files (trace ps')
                  = removed_files (trace ps) @ map name (take (Suc n - 1) (pages ps))"
      by (simp add: ps m)
  qed
  show ?thesis
    unfolding cleanup_post_def using r a b c e by blast
qed

lemma cleanup_char:
  assumes "total_size ps = sum_list (map Page_size (pages ps))"
  shows "cleanup_post E ps (cleanup E ps)"
  using assms
proof (induction E ps rule: cleanup.induct)
  case (1 E ps)
  show ?case
  proof (cases "page_cleanup_needed ps")
    case False
    then have "cleanup E ps = Return () ps" by (simp add: cleanup.simps)
    with False popped_0 [of ps] show ?thesis
      unfolding cleanup_post_def by (intro exI [of _ 0] exI [of _ ps]) simp
  next
    case True
    from True "1.prems" have ne: "pages ps \<noteq> []" by (rule cleanup_needed_nonempty)
    show ?thesis
    proof (cases "delete_page E ps")
      case (Return b ps1)
      show ?thesis
      proof (cases b)
        case True
        with Return have d: "delete_page E ps = Return True ps1" by simp
        then have "popped (Suc 0) ps ps1" by (rule delete_page_True_popped)
        then have "total_size ps1 = sum_list (map Page_size (pages ps1))"
          using "1.prems" by (rule popped_inv_total)
        with "1.IH" [OF \<open>page_cleanup_needed ps\<close> Return True]
        have "cleanup_post E ps1 (cleanup E ps1)" by simp
        moreover have "cleanup E ps = cleanup E ps1"
          using \<open>page_cleanup_needed ps\<close> d by (subst cleanup.simps) simp
        ultimately show ?thesis
          using cleanup_post_step [OF d "1.prems" \<open>page_cleanup_needed ps\<close>] by simp
      next
        case False
        with Return have d: "delete_page E ps = Return False ps1" by simp
        from delete_page_False [OF d] have f: "ps1 = ps" "0 < pg_used (hd (pages ps))" by simp_all
        have "cleanup E ps = Return () ps"
          using \<open>page_cleanup_needed ps\<close> d f by (subst cleanup.simps) simp
        with ne f popped_0 [of ps] show ?thesis
          unfolding cleanup_post_def by (intro exI [of _ 0] exI [of _ ps]) simp
      qed
    next
      case (Thrown ps1)
      then have c: "cleanup E ps = Thrown ps1"
        using \<open>page_cleanup_needed ps\<close> by (subst cleanup.simps) simp
      from Thrown have "popped (Suc 0) ps ps1" by (rule delete_page_Thrown_popped)
      moreover from delete_page_Thrown_trace [OF Thrown] ne
      have "thread_err E (name (pages ps ! 0)) \<noteq> 0"
        "removed_files (trace ps1) = removed_files (trace ps)"
        by (simp_all add: hd_conv_nth)
      ultimately show ?thesis
        using c True unfolding cleanup_post_def
        by (intro exI [of _ "Suc 0"] exI [of _ ps1]) (simp add: page_cleanup_needed_def)
    next
      case Aborted
      then show ?thesis by (simp add: delete_page_not_Aborted)
    next
      case Undefined
      with ne show ?thesis by (simp add: delete_page_Undefined)
    qed
  qed
qed

section \<open>cleanup\<close>

lemma popped_first_in_use:
  assumes "popped n ps ps'" "i < length (pages ps)" "0 < pg_used (pages ps ! i)"
  shows "n \<le> i"
proof (rule ccontr)
  assume "\<not> n \<le> i"
  then have "i < n" by simp
  with assms(2) have "pages ps ! i \<in> set (take n (pages ps))"
    by (metis in_set_conv_nth length_take min_less_iff_conj nth_take)
  with assms(1,3) show False by (auto simp: popped_def)
qed


section \<open>reset\<close>

lemma drop_dropWhile:
  assumes "n \<le> length xs" "\<forall>x \<in> set (take n xs). P x" "drop n xs = [] \<or> \<not> P (hd (drop n xs))"
  shows "drop n xs = dropWhile P xs"
  using assms
proof (induction xs arbitrary: n)
  case Nil
  then show ?case by simp
next
  case (Cons x xs)
  show ?case
  proof (cases n)
    case 0
    with Cons.prems show ?thesis by simp
  next
    case (Suc m)
    with Cons.prems have "P x" "m \<le> length xs" "\<forall>x \<in> set (take m xs). P x"
      "drop m xs = [] \<or> \<not> P (hd (drop m xs))" by simp_all
    with Cons.IH [of m] Suc show ?thesis by simp
  qed
qed

lemma reset_post_step:
  assumes d: "delete_page E ps = Return True ps1"
    and post: "reset_post E ps1 r"
  shows "reset_post E ps r"
proof -
  from d have p1: "popped (Suc 0) ps ps1" by (rule delete_page_True_popped)
  from p1 obtain p rest where ps: "pages ps = p # rest" "pages ps1 = rest"
    by (cases "pages ps") (auto simp: popped_def)
  from delete_page_True_trace [OF d] ps
  have tr: "removed_files (trace ps1) = removed_files (trace ps) @ [name p]"
    and te: "thread_err E (name p) = 0" by simp_all
  from post obtain n ps' where
    r: "r = Return () ps' \<or> r = Thrown ps'"
    and pn: "popped n ps1 ps'"
    and ret: "r = Return () ps' \<longrightarrow>
              (pages ps' = [] \<or> 0 < pg_used (hd (pages ps')))
              \<and> removed_files (trace ps') = removed_files (trace ps1) @ map name (take n (pages ps1))
              \<and> (\<forall>p \<in> set (take n (pages ps1)). thread_err E (name p) = 0)"
    and thr: "r = Thrown ps' \<longrightarrow>
              0 < n \<and> thread_err E (name (pages ps1 ! (n - 1))) \<noteq> 0
              \<and> removed_files (trace ps')
                  = removed_files (trace ps1) @ map name (take (n - 1) (pages ps1))
              \<and> (\<forall>p \<in> set (take (n - 1) (pages ps1)). thread_err E (name p) = 0)"
    unfolding reset_post_def by blast
  have a: "popped (Suc n) ps ps'" using p1 pn by (rule popped_trans)
  have c: "r = Return () ps' \<longrightarrow>
              (pages ps' = [] \<or> 0 < pg_used (hd (pages ps')))
              \<and> removed_files (trace ps') = removed_files (trace ps) @ map name (take (Suc n) (pages ps))
              \<and> (\<forall>p \<in> set (take (Suc n) (pages ps)). thread_err E (name p) = 0)"
    using ret tr te by (simp add: ps)
  have e: "r = Thrown ps' \<longrightarrow>
              0 < Suc n \<and> thread_err E (name (pages ps ! (Suc n - 1))) \<noteq> 0
              \<and> removed_files (trace ps')
                  = removed_files (trace ps) @ map name (take (Suc n - 1) (pages ps))
              \<and> (\<forall>p \<in> set (take (Suc n - 1) (pages ps)). thread_err E (name p) = 0)"
  proof
    assume t: "r = Thrown ps'"
    with thr obtain m where m: "n = Suc m" by (cases n) auto
    from t thr tr te show "0 < Suc n \<and> thread_err E (name (pages ps ! (Suc n - 1))) \<noteq> 0
              \<and> removed_files (trace ps')
                  = removed_files (trace ps) @ map name (take (Suc n - 1) (pages ps))
              \<and> (\<forall>p \<in> set (take (Suc n - 1) (pages ps)). thread_err E (name p) = 0)"
      by (simp add: ps m)
  qed
  show ?thesis
    unfolding reset_post_def using r a c e by blast
qed

lemma reset_char: "reset_post E ps (PageStore_reset E ps)"
proof (induction E ps rule: PageStore_reset.induct)
  case (1 E ps)
  show ?case
  proof (cases "pages ps = []")
    case True
    then have "PageStore_reset E ps = Return () ps" by (simp add: PageStore_reset.simps)
    with True popped_0 [of ps] show ?thesis
      unfolding reset_post_def by (intro exI [of _ 0] exI [of _ ps]) simp
  next
    case False
    then have ne: "0 < length (pages ps)" by simp
    show ?thesis
    proof (cases "delete_page E ps")
      case (Return b ps1)
      show ?thesis
      proof (cases b)
        case True
        with Return have d: "delete_page E ps = Return True ps1" by simp
        from "1.IH" [OF ne Return True]
        have "reset_post E ps1 (PageStore_reset E ps1)" .
        moreover have "PageStore_reset E ps = PageStore_reset E ps1"
          using ne d by (subst PageStore_reset.simps) simp
        ultimately show ?thesis
          using reset_post_step [OF d] by simp
      next
        case False
        with Return have d: "delete_page E ps = Return False ps1" by simp
        from delete_page_False [OF d] have f: "ps1 = ps" "0 < pg_used (hd (pages ps))" by simp_all
        have "PageStore_reset E ps = Return () ps"
          using ne d f by (subst PageStore_reset.simps) simp
        with f popped_0 [of ps] show ?thesis
          unfolding reset_post_def by (intro exI [of _ 0] exI [of _ ps]) simp
      qed
    next
      case (Thrown ps1)
      then have c: "PageStore_reset E ps = Thrown ps1"
        using ne by (subst PageStore_reset.simps) simp
      from Thrown have "popped (Suc 0) ps ps1" by (rule delete_page_Thrown_popped)
      moreover from delete_page_Thrown_trace [OF Thrown] False
      have "thread_err E (name (pages ps ! 0)) \<noteq> 0"
        "removed_files (trace ps1) = removed_files (trace ps)"
        by (simp_all add: hd_conv_nth)
      ultimately show ?thesis
        using c unfolding reset_post_def
        by (intro exI [of _ "Suc 0"] exI [of _ ps1]) simp
    next
      case Aborted
      then show ?thesis by (simp add: delete_page_not_Aborted)
    next
      case Undefined
      with False show ?thesis by (simp add: delete_page_Undefined)
    qed
  qed
qed

section \<open>Pages as the calls leave them\<close>

lemma Page_malloc_fits:
  "assert_size K sz \<Longrightarrow> aligned_size K sz \<le> pg_space p \<Longrightarrow>
     Page_malloc K p sz = Return (Some (pg_next p)) (bumped K p sz)"
  by (simp add: Page_malloc_def bumped_def Let_def)

lemma Page_malloc_full:
  "assert_size K sz \<Longrightarrow> pg_space p < aligned_size K sz \<Longrightarrow>
     Page_malloc K p sz = Return None (Page_close K p)"
  by (simp add: Page_malloc_def Let_def)

lemma Page_malloc_cases:
  "Page_malloc K p sz = Aborted \<and> \<not> assert_size K sz
   \<or> Page_malloc K p sz = Return (Some (pg_next p)) (bumped K p sz)
       \<and> assert_size K sz \<and> aligned_size K sz \<le> pg_space p
   \<or> Page_malloc K p sz = Return None (Page_close K p)
       \<and> assert_size K sz \<and> pg_space p < aligned_size K sz"
  by (simp add: Page_malloc_def bumped_def Let_def)

lemma bumped_fields [simp]:
  "self (bumped K p sz) = self p" "name (bumped K p sz) = name p"
  "msize (bumped K p sz) = msize p" "mem (bumped K p sz) = mem p"
  "bhs (bumped K p sz) = bhs p" "pg_used (bumped K p sz) = pg_used p + 1"
  "pg_next (bumped K p sz) = pg_next p + aligned_size K sz"
  "pg_space (bumped K p sz) = pg_space p - aligned_size K sz"
  "pg_nonce (bumped K p sz) = pg_nonce p" "pg_key (bumped K p sz) = pg_key p"
  "pg_debug (bumped K p sz) = pg_debug p"
  by (simp_all add: bumped_def)

lemma Page_close_fields [simp]:
  "self (Page_close K p) = self p" "name (Page_close K p) = name p"
  "msize (Page_close K p) = msize p" "mem (Page_close K p) = mem p"
  "pg_used (Page_close K p) = pg_used p" "pg_next (Page_close K p) = pg_next p"
  "pg_space (Page_close K p) = pg_space p" "pg_nonce (Page_close K p) = pg_nonce p"
  "pg_key (Page_close K p) = pg_key p" "pg_debug (Page_close K p) = pg_debug p"
  by (simp_all add: Page_close_def)

lemma Page_free_fields [simp]:
  "self (Page_free p) = self p" "name (Page_free p) = name p"
  "msize (Page_free p) = msize p" "mem (Page_free p) = mem p" "bhs (Page_free p) = bhs p"
  "pg_used (Page_free p) = pg_used p - 1" "pg_next (Page_free p) = pg_next p"
  "pg_space (Page_free p) = pg_space p"
  by (simp_all add: Page_free_def)

lemma Page_ctor_id:
  "self (Page_ctor K a nm n k sz dbg m0 h0) = a"
  "name (Page_ctor K a nm n k sz dbg m0 h0) = nm"
  "msize (Page_ctor K a nm n k sz dbg m0 h0) = aligned_size K sz"
  "bhs (Page_ctor K a nm n k sz dbg m0 h0) = h0"
  "pg_used (Page_ctor K a nm n k sz dbg m0 h0) = 0"
  "pg_nonce (Page_ctor K a nm n k sz dbg m0 h0) = n"
  by (simp_all add: Page_ctor_def Nonce_write_def nonce_serial_size_def Let_def)

lemma Page_ctor_room:
  "pg_next (Page_ctor K a nm n k sz dbg m0 h0)
     = aligned_size K (min (NONCE_SIZE K) (aligned_size K sz))"
  "pg_space (Page_ctor K a nm n k sz dbg m0 h0)
     = aligned_size K sz - aligned_size K (min (NONCE_SIZE K) (aligned_size K sz))"
  by (simp_all add: Page_ctor_def Nonce_write_def nonce_serial_size_def Let_def)

lemma meta_size_dvd: "ALIGNMENT K dvd meta_size K k"
  by (simp add: meta_size_def BH_aligned_size_def aligned_size_dvd)

lemma fresh_page_fields:
  "self (fresh_page E ps sz) = count ps"
  "name (fresh_page E ps sz) = make_page_name (base_name ps) (count ps)"
  "msize (fresh_page E ps sz) = aligned_size (cfg E) sz"
  "Page_size (fresh_page E ps sz) = aligned_size (cfg E) sz"
  "pg_used (fresh_page E ps sz) = 0"
  by (simp_all add: fresh_page_def Let_def Page_ctor_id Page_size_def)

lemma fresh_page_room:
  assumes "0 < ALIGNMENT (cfg E)" "meta_size (cfg E) (length (enc_key ps)) \<le> sz"
  shows "pg_next (fresh_page E ps sz) = meta_size (cfg E) (length (enc_key ps))"
    and "pg_space (fresh_page E ps sz)
           = aligned_size (cfg E) sz - meta_size (cfg E) (length (enc_key ps))"
proof -
  let ?K = "cfg E"
  let ?kb = "BH_aligned_size ?K (length (enc_key ps))"
  have n: "NONCE_SIZE ?K \<le> aligned_size ?K sz"
  proof -
    have "NONCE_SIZE ?K \<le> aligned_size ?K (NONCE_SIZE ?K)" using assms(1) by (rule aligned_size_ge)
    also have "\<dots> \<le> sz" using assms(2) by (simp add: meta_size_def)
    also have "\<dots> \<le> aligned_size ?K sz" using assms(1) by (rule aligned_size_ge)
    finally show ?thesis .
  qed
  have k: "aligned_size ?K ?kb = ?kb"
    using assms(1) by (simp add: BH_aligned_size_def aligned_size_id aligned_size_dvd)
  show "pg_next (fresh_page E ps sz) = meta_size ?K (length (enc_key ps))"
    using n by (simp add: fresh_page_def Let_def Page_ctor_room min_absorb1 k meta_size_def)
  show "pg_space (fresh_page E ps sz) = aligned_size ?K sz - meta_size ?K (length (enc_key ps))"
    using n by (simp add: fresh_page_def Let_def Page_ctor_room min_absorb1 k meta_size_def)
qed

lemma find_page_fresh:
  "self p \<notin> self ` set ps \<Longrightarrow> find_page (self p) (ps @ [p]) = Some p"
  by (simp add: find_page_append find_page_None [symmetric] split: option.splits)

lemma put_page_fresh:
  "self p \<notin> self ` set ps \<Longrightarrow> self q = self p \<Longrightarrow> put_page q (ps @ [p]) = ps @ [q]"
  by (simp add: put_page_append put_page_absent) (simp add: put_page_def)

section \<open>A new page\<close>

lemma new_page_Thrown:
  "\<not> file_ok E (make_page_name (base_name ps) (count ps)) (aligned_size (cfg E) sz) \<Longrightarrow>
     new_page E ps sz = Thrown ps"
  by (simp add: new_page_def Let_def)

lemma new_page_Return:
  assumes ok: "file_ok E (make_page_name (base_name ps) (count ps)) (aligned_size (cfg E) sz)"
    and cf: "config_ok E ps"
    and meta: "meta_size (cfg E) (length (enc_key ps)) \<le> sz"
    and fresh: "count ps \<notin> self ` set (pages ps)"
  shows "new_page E ps sz = Return () (with_page ps (fresh_page E ps sz))"
proof -
  let ?K = "cfg E"
  let ?nm = "make_page_name (base_name ps) (count ps)"
  let ?p0 = "Page_ctor ?K (count ps) ?nm (rand_nonce E ?nm) (enc_key ps) sz (ps_debug ps)
               (file_mem E ?nm) (file_bhs E ?nm)"
  let ?kb = "BH_aligned_size ?K (length (enc_key ps))"
  from cf have al: "0 < ALIGNMENT ?K" and kmax: "?kb \<le> MAX_SIZE ?K"
    by (simp_all add: config_ok_def)
  have n: "NONCE_SIZE ?K \<le> aligned_size ?K sz"
  proof -
    have "NONCE_SIZE ?K \<le> aligned_size ?K (NONCE_SIZE ?K)" using al by (rule aligned_size_ge)
    also have "\<dots> \<le> sz" using meta by (simp add: meta_size_def)
    also have "\<dots> \<le> aligned_size ?K sz" using al by (rule aligned_size_ge)
    finally show ?thesis .
  qed
  have k: "aligned_size ?K ?kb = ?kb"
    using al by (simp add: BH_aligned_size_def aligned_size_id aligned_size_dvd)
  have "meta_size ?K (length (enc_key ps)) \<le> aligned_size ?K sz"
    using meta aligned_size_ge [OF al, of sz] by simp
  then have room: "aligned_size ?K ?kb \<le> pg_space ?p0"
    using n by (simp add: Page_ctor_room min_absorb1 k meta_size_def)
  have m: "Page_malloc ?K ?p0 ?kb = Return (Some (pg_next ?p0)) (bumped ?K ?p0 ?kb)"
    using kmax room by (intro Page_malloc_fits) (simp add: assert_size_def)
  have f: "find_page (count ps) (pages ps @ [?p0]) = Some ?p0"
    using find_page_fresh [of ?p0 "pages ps"] fresh by (simp add: Page_ctor_id)
  have fp: "Page_free (bumped ?K ?p0 ?kb
              \<lparr>bhs := (bhs (bumped ?K ?p0 ?kb))
                 (pg_next ?p0 := BH_release (bhs (bumped ?K ?p0 ?kb) (pg_next ?p0)))\<rparr>)
            = fresh_page E ps sz"
    by (simp add: fresh_page_def Let_def Page_free_def bumped_def Page_ctor_id)
  have pp: "put_page (fresh_page E ps sz) (pages ps @ [?p0]) = pages ps @ [fresh_page E ps sz]"
    using put_page_fresh [of ?p0 "pages ps" "fresh_page E ps sz"] fresh
    by (simp add: Page_ctor_id fresh_page_fields)
  show ?thesis
    using ok
    by (simp add: new_page_def Let_def Page_ctor_id f m fp pp with_page_def
          fresh_page_fields Page_size_def del: bumped_fields)
qed

lemma wanted_size_if:
  "(if page_size ps > sz + meta_size (cfg E) (length (enc_key ps)) then page_size ps
    else sz + meta_size (cfg E) (length (enc_key ps))) = wanted_size E ps sz"
  by (simp add: wanted_size_def max_def)

lemma wanted_size_meta: "meta_size (cfg E) (length (enc_key ps)) \<le> wanted_size E ps sz"
  by (simp add: wanted_size_def max_def)

lemma fresh_page_holds:
  assumes "0 < ALIGNMENT (cfg E)"
  shows "aligned_size (cfg E) sz \<le> pg_space (fresh_page E ps (wanted_size E ps sz))"
proof -
  let ?K = "cfg E"
  let ?m = "meta_size ?K (length (enc_key ps))"
  have "aligned_size ?K sz + ?m = aligned_size ?K (sz + ?m)"
    using assms by (simp add: aligned_size_add meta_size_dvd)
  also have "\<dots> \<le> aligned_size ?K (wanted_size E ps sz)"
    by (rule aligned_size_mono) (simp add: wanted_size_def)
  finally show ?thesis
    using fresh_page_room(2) [OF assms wanted_size_meta, of ps sz] by simp
qed

lemma malloc_new_nofile:
  assumes "assert_size (cfg E) sz"
    and "\<not> file_ok E (make_page_name (base_name ps) (count ps))
             (aligned_size (cfg E) (wanted_size E ps sz))"
  shows "malloc_new E ps sz
           = Return None (ps\<lparr>trace := trace ps @ [Log_error Cannot_create_page]\<rparr>)"
  using assms by (simp add: malloc_new_def Let_def wanted_size_if new_page_Thrown)

text \<open>The store after a new page took the request, before retention cleanup.\<close>

lemma malloc_new_ok:
  assumes sz: "assert_size (cfg E) sz"
    and ok: "file_ok E (make_page_name (base_name ps) (count ps))
               (aligned_size (cfg E) (wanted_size E ps sz))"
    and cf: "config_ok E ps"
    and fresh: "count ps \<notin> self ` set (pages ps)"
  shows "malloc_new E ps sz
           = (case cleanup E (grown E ps sz) of
                Return v ps3 \<Rightarrow>
                  Return (Some (count ps, meta_size (cfg E) (length (enc_key ps)))) ps3
              | Thrown ps3 \<Rightarrow>
                  Return (Some (count ps, meta_size (cfg E) (length (enc_key ps))))
                    (ps3\<lparr>trace := trace ps3 @ [Log_error Cannot_create_page]\<rparr>)
              | Aborted \<Rightarrow> Aborted
              | Undefined \<Rightarrow> Undefined)"
proof -
  let ?K = "cfg E"
  let ?w = "wanted_size E ps sz"
  let ?np = "fresh_page E ps ?w"
  from cf have al: "0 < ALIGNMENT ?K" by (simp add: config_ok_def)
  have n: "new_page E ps ?w = Return () (with_page ps ?np)"
    using ok cf wanted_size_meta fresh by (rule new_page_Return)
  have c: "current (with_page ps ?np) = Some (count ps)"
    by (simp add: with_page_def fresh_page_fields)
  have f: "find_page (count ps) (pages (with_page ps ?np)) = Some ?np"
    using find_page_fresh [of ?np "pages ps"] fresh
    by (simp add: with_page_def fresh_page_fields)
  have m: "Page_malloc ?K ?np sz = Return (Some (pg_next ?np)) (bumped ?K ?np sz)"
    using sz fresh_page_holds [OF al] by (rule Page_malloc_fits)
  have nx: "pg_next ?np = meta_size ?K (length (enc_key ps))"
    using al wanted_size_meta by (rule fresh_page_room)
  have pp: "(with_page ps ?np)\<lparr>pages := put_page (bumped ?K ?np sz) (pages (with_page ps ?np))\<rparr>
              = grown E ps sz"
    using put_page_fresh [of ?np "pages ps" "bumped ?K ?np sz"] fresh
    by (simp add: with_page_def grown_def fresh_page_fields Page_size_def)
  show ?thesis
    using sz
    by (simp add: malloc_new_def Let_def wanted_size_if n c f m pp nx
          del: bumped_fields split: outcome.splits)
qed

section \<open>The invariant of the store\<close>

lemma state_of_simps [simp]:
  "state_of (Return v s) = Some s" "state_of (Thrown s) = Some s"
  "state_of Aborted = None" "state_of Undefined = None"
  by (simp_all add: state_of_def)

lemma Page_malloc_same:
  assumes "Page_malloc K p sz = Return r q"
  shows "self q = self p \<and> msize q = msize p \<and> name q = name p"
  using assms Page_malloc_cases [of K p sz] by auto

lemma Page_malloc_not_Thrown [simp]: "Page_malloc K p sz \<noteq> Thrown q"
  using Page_malloc_cases [of K p sz] by auto

lemma Page_malloc_not_Undefined [simp]: "Page_malloc K p sz \<noteq> Undefined"
  using Page_malloc_cases [of K p sz] by auto

lemma inv_put_page:
  assumes "PageStore_inv ps" "find_page a (pages ps) = Some p" "self q = self p"
    "msize q = msize p"
  shows "PageStore_inv (ps\<lparr>pages := put_page q (pages ps)\<rparr>)"
proof -
  from assms(2) have a: "self p = a" by (simp add: find_page_Some)
  from assms(1) have d: "distinct (map self (pages ps))" by (simp add: PageStore_inv_def)
  have s: "map Page_size (put_page q (pages ps)) = map Page_size (pages ps)"
    using d assms(2,3,4) a by (intro put_page_sizes [where p = p]) simp_all
  have m: "map self (put_page q (pages ps)) = map self (pages ps)" by (rule put_page_self)
  have i: "self ` set (put_page q (pages ps)) = self ` set (pages ps)"
    using m by (metis set_map)
  have l: "\<forall>x \<in> set (put_page q (pages ps)). self x < count ps"
  proof
    fix x assume "x \<in> set (put_page q (pages ps))"
    then have "self x \<in> self ` set (pages ps)" using i by blast
    with assms(1) show "self x < count ps" by (auto simp: PageStore_inv_def)
  qed
  from assms(1) l show ?thesis
    unfolding PageStore_inv_def by (simp add: s m i)
qed

lemma inv_with_page:
  assumes "PageStore_inv ps" "self p = count ps"
  shows "PageStore_inv (with_page ps p)"
  using assms by (auto simp: PageStore_inv_def with_page_def less_Suc_eq)

lemma inv_fresh: "PageStore_inv ps \<Longrightarrow> count ps \<notin> self ` set (pages ps)"
  by (auto simp: PageStore_inv_def)

lemma inv_popped:
  assumes "PageStore_inv ps" "popped n ps ps'"
  shows "PageStore_inv ps'"
proof -
  from assms have t: "total_size ps' = sum_list (map Page_size (pages ps'))"
    by (intro popped_inv_total [OF assms(2)]) (simp add: PageStore_inv_def)
  from assms(2) have dr: "pages ps' = drop n (pages ps)" and c: "count ps' = count ps"
    by (simp_all add: popped_def)
  from assms(1) have d: "distinct (map self (pages ps'))"
    by (simp add: PageStore_inv_def dr drop_map [symmetric])
  from assms(1) have l: "\<forall>p \<in> set (pages ps'). self p < count ps'"
    by (auto simp: PageStore_inv_def dr c dest: in_set_dropD)
  have cu: "\<forall>a. current ps' = Some a \<longrightarrow> a \<in> self ` set (pages ps')"
  proof (intro allI impI)
    fix a assume a: "current ps' = Some a"
    with assms(2) have "current ps = Some a" "a \<notin> self ` set (take n (pages ps))"
      by (auto simp: popped_def split: option.splits if_splits)
    with assms(1) have "a \<in> self ` set (pages ps)" by (simp add: PageStore_inv_def)
    then have "a \<in> self ` (set (take n (pages ps)) \<union> set (drop n (pages ps)))"
      by (metis append_take_drop_id set_append)
    with \<open>a \<notin> self ` set (take n (pages ps))\<close> show "a \<in> self ` set (pages ps')"
      by (auto simp: dr)
  qed
  from t d l cu show ?thesis by (simp add: PageStore_inv_def)
qed

lemma inv_frame [simp]:
  "PageStore_inv (ps\<lparr>trace := t\<rparr>) = PageStore_inv ps"
  "PageStore_inv (ps\<lparr>enc_key := k\<rparr>) = PageStore_inv ps"
  "PageStore_inv (ps\<lparr>delete_thr := th\<rparr>) = PageStore_inv ps"
  "PageStore_inv (ps\<lparr>ps_debug := dbg\<rparr>) = PageStore_inv ps"
  by (simp_all add: PageStore_inv_def)

lemma inv_cleanup:
  assumes "PageStore_inv ps" "state_of (cleanup E ps) = Some ps'"
  shows "PageStore_inv ps'"
proof -
  from assms(1) have "total_size ps = sum_list (map Page_size (pages ps))"
    by (simp add: PageStore_inv_def)
  from cleanup_char [OF this, of E] obtain n s where
    "cleanup E ps = Return () s \<or> cleanup E ps = Thrown s" "popped n ps s"
    unfolding cleanup_post_def by blast
  with assms show ?thesis by (auto intro: inv_popped)
qed

lemma inv_reset:
  assumes "PageStore_inv ps" "state_of (PageStore_reset E ps) = Some ps'"
  shows "PageStore_inv ps'"
proof -
  from reset_char [of E ps] obtain n s where
    "PageStore_reset E ps = Return () s \<or> PageStore_reset E ps = Thrown s" "popped n ps s"
    unfolding reset_post_def by blast
  with assms show ?thesis by (auto intro: inv_popped)
qed

lemma inv_new_page:
  assumes "PageStore_inv ps" "state_of (new_page E ps sz) = Some ps'"
  shows "PageStore_inv ps'"
proof (cases "file_ok E (make_page_name (base_name ps) (count ps)) (aligned_size (cfg E) sz)")
  case False
  with assms show ?thesis by (simp add: new_page_Thrown)
next
  case True
  let ?nm = "make_page_name (base_name ps) (count ps)"
  define p0 where "p0 = Page_ctor (cfg E) (count ps) ?nm (rand_nonce E ?nm) (enc_key ps) sz
               (ps_debug ps) (file_mem E ?nm) (file_bhs E ?nm)"
  have s0: "self p0 = count ps" by (simp add: p0_def Page_ctor_id)
  have i1: "PageStore_inv (with_page ps p0)" using assms(1) s0 by (rule inv_with_page)
  have f: "find_page (count ps) (pages (with_page ps p0)) = Some p0"
    using find_page_fresh [of p0 "pages ps"] inv_fresh [OF assms(1)] s0
    by (simp add: with_page_def)
  show ?thesis
  proof (cases "Page_malloc (cfg E) p0 (BH_aligned_size (cfg E) (length (enc_key ps)))")
    case (Return r cur1)
    from Page_malloc_same [OF Return] have sm: "self cur1 = self p0" "msize cur1 = msize p0"
      by simp_all
    show ?thesis
    proof (cases r)
      case None
      with Return True f s0 assms(2) show ?thesis
        by (simp add: new_page_def Let_def p0_def [symmetric] with_page_def)
    next
      case (Some off)
      with Return True f s0 assms(2) have "ps' = (with_page ps p0)\<lparr>pages := put_page
                  (Page_free (cur1\<lparr>bhs := (bhs cur1)(off := BH_release (bhs cur1 off))\<rparr>))
                  (pages (with_page ps p0))\<rparr>"
        by (simp add: new_page_def Let_def p0_def [symmetric] with_page_def)
      moreover have "PageStore_inv ((with_page ps p0)\<lparr>pages := put_page
                  (Page_free (cur1\<lparr>bhs := (bhs cur1)(off := BH_release (bhs cur1 off))\<rparr>))
                  (pages (with_page ps p0))\<rparr>)"
        using i1 f by (rule inv_put_page) (simp_all add: sm s0)
      ultimately show ?thesis by simp
    qed
  next
    case (Thrown q)
    then show ?thesis by simp
  next
    case Aborted
    with True f s0 assms(2) show ?thesis
      by (simp add: new_page_def Let_def p0_def [symmetric] with_page_def)
  next
    case Undefined
    then show ?thesis by simp
  qed
qed

lemma inv_put_malloc:
  assumes "PageStore_inv ps" "find_page a (pages ps) = Some cur"
    "Page_malloc K cur sz = Return r cur1"
  shows "PageStore_inv (ps\<lparr>pages := put_page cur1 (pages ps)\<rparr>)"
  using assms(1,2) Page_malloc_same [OF assms(3)] by (intro inv_put_page) simp_all

lemma inv_malloc_new:
  assumes "PageStore_inv ps" "state_of (malloc_new E ps sz) = Some ps'"
  shows "PageStore_inv ps'"
proof -
  let ?w = "wanted_size E ps sz"
  from assms(2) have sz: "assert_size (cfg E) sz"
    by (auto simp: malloc_new_def split: if_splits)
  show ?thesis
  proof (cases "new_page E ps ?w")
    case (Return u ps1)
    then have i1: "PageStore_inv ps1" using inv_new_page [OF assms(1), of E ?w ps1] by simp
    from Return sz assms(2) obtain a cur where
      c: "current ps1 = Some a" and f: "find_page a (pages ps1) = Some cur"
      by (auto simp: malloc_new_def Let_def wanted_size_if split: option.splits)
    show ?thesis
    proof (cases "Page_malloc (cfg E) cur sz")
      case (Return r cur1)
      let ?ps2 = "ps1\<lparr>pages := put_page cur1 (pages ps1)\<rparr>"
      have i2: "PageStore_inv ?ps2" using i1 f Return by (rule inv_put_malloc)
      from \<open>new_page E ps ?w = Return u ps1\<close> sz c f Return assms(2)
      have "state_of (cleanup E ?ps2) = Some ps'
            \<or> (\<exists>s. state_of (cleanup E ?ps2) = Some s
                  \<and> ps' = s\<lparr>trace := trace s @ [Log_error Cannot_create_page]\<rparr>)"
        by (auto simp: malloc_new_def Let_def wanted_size_if split: outcome.splits)
      with inv_cleanup [OF i2] show ?thesis by auto
    next
      case (Thrown q)
      then show ?thesis by simp
    next
      case Aborted
      with \<open>new_page E ps ?w = Return u ps1\<close> sz c f assms(2) show ?thesis
        by (simp add: malloc_new_def Let_def wanted_size_if)
    next
      case Undefined
      then show ?thesis by simp
    qed
  next
    case (Thrown ps1)
    then have "PageStore_inv ps1" using inv_new_page [OF assms(1), of E ?w ps1] by simp
    with Thrown sz assms(2) show ?thesis
      by (auto simp: malloc_new_def Let_def wanted_size_if)
  next
    case Aborted
    with sz assms(2) show ?thesis by (simp add: malloc_new_def Let_def wanted_size_if)
  next
    case Undefined
    with sz assms(2) show ?thesis by (simp add: malloc_new_def Let_def wanted_size_if)
  qed
qed

lemma inv_PageStore_malloc:
  assumes "PageStore_inv ps" "state_of (PageStore_malloc E ps sz) = Some ps'"
  shows "PageStore_inv ps'"
proof -
  from assms(2) have sz: "assert_size (cfg E) sz"
    by (auto simp: PageStore_malloc_def split: if_splits)
  show ?thesis
  proof (cases "current ps")
    case None
    with sz assms(2) have "state_of (malloc_new E ps sz) = Some ps'"
      by (simp add: PageStore_malloc_def)
    with assms(1) show ?thesis by (rule inv_malloc_new)
  next
    case (Some a)
    with sz assms(2) obtain cur where f: "find_page a (pages ps) = Some cur"
      by (auto simp: PageStore_malloc_def split: option.splits)
    show ?thesis
    proof (cases "Page_malloc (cfg E) cur sz")
      case (Return r cur1)
      let ?ps1 = "ps\<lparr>pages := put_page cur1 (pages ps)\<rparr>"
      have i1: "PageStore_inv ?ps1" using assms(1) f Return by (rule inv_put_malloc)
      show ?thesis
      proof (cases r)
        case None
        with Some sz f Return assms(2)
        have "state_of (malloc_new E (?ps1\<lparr>trace := trace ?ps1 @ [Drop_fs_cache (name cur1)]\<rparr>) sz)
                = Some ps'"
          by (simp add: PageStore_malloc_def Let_def)
        moreover have "PageStore_inv (?ps1\<lparr>trace := trace ?ps1 @ [Drop_fs_cache (name cur1)]\<rparr>)"
          using i1 by simp
        ultimately show ?thesis by (rule inv_malloc_new [rotated])
      next
        case (Some off)
        with \<open>current ps = Some a\<close> sz f Return assms(2) have "ps' = ?ps1"
          by (simp add: PageStore_malloc_def Let_def)
        with i1 show ?thesis by simp
      qed
    next
      case (Thrown q)
      then show ?thesis by simp
    next
      case Aborted
      with Some sz f assms(2) show ?thesis by (simp add: PageStore_malloc_def)
    next
      case Undefined
      then show ?thesis by simp
    qed
  qed
qed

lemma inv_release:
  assumes "PageStore_inv ps" "state_of (release ps ptr) = Some ps'"
  shows "PageStore_inv ps'"
proof -
  from assms(2) obtain a page where
    f: "find_page a (pages ps) = Some page"
    and e: "ps' = ps\<lparr>pages := put_page (Page_free page) (pages ps)\<rparr>"
    by (auto simp: release_def split: option.splits)
  from assms(1) f show ?thesis unfolding e by (rule inv_put_page) simp_all
qed

lemma inv_set_enc_key:
  assumes "PageStore_inv ps" "state_of (set_enc_key E ps k) = Some ps'"
  shows "PageStore_inv ps'"
proof -
  let ?sz = "if meta_size (cfg E) (length (enc_key ps)) > page_size ps
             then meta_size (cfg E) (length (enc_key ps)) else page_size ps"
  from assms(2) obtain s where "state_of (new_page E ps ?sz) = Some s"
    and "ps' = s \<or> ps' = s\<lparr>enc_key := k\<rparr>"
    by (auto simp: set_enc_key_def Let_def split: outcome.splits)
  with inv_new_page [OF assms(1), of E ?sz s] show ?thesis by auto
qed

lemma inv_set_debug:
  assumes "PageStore_inv ps"
  shows "PageStore_inv (set_debug K ps dbg)"
proof -
  let ?f = "\<lambda>p. p\<lparr>pg_debug := dbg AND DEBUG K\<rparr>"
  let ?ps = "set_debug K ps dbg"
  have f: "pages ?ps = map ?f (pages ps)" "total_size ?ps = total_size ps"
    "count ?ps = count ps" "current ?ps = current ps"
    by (simp_all add: set_debug_def Let_def)
  have a: "map self (pages ?ps) = map self (pages ps)"
    and b: "map Page_size (pages ?ps) = map Page_size (pages ps)"
    by (simp_all add: f Page_size_def comp_def)
  have c: "self ` set (pages ?ps) = self ` set (pages ps)"
    using a by (metis set_map)
  have l: "\<forall>x \<in> set (pages ?ps). self x < count ?ps"
    using assms by (auto simp: PageStore_inv_def f)
  from assms l show ?thesis
    unfolding PageStore_inv_def [of ?ps] a b c f(2,4)
    by (simp add: PageStore_inv_def)
qed

lemma inv_PageStore_realloc:
  assumes "PageStore_inv ps" "state_of (PageStore_realloc E ps ptr sz) = Some ps'"
  shows "PageStore_inv ps'"
proof -
  from assms(2) have sz: "assert_size (cfg E) sz"
    by (auto simp: PageStore_realloc_def split: if_splits)
  from sz assms(2) obtain holder a page where
    h: "find_page (fst ptr) (pages ps) = Some holder"
    and c: "bh_ctx (bhs holder (snd ptr)) = Some a"
    and pg: "find_page a (pages ps) = Some page"
    by (auto simp: PageStore_realloc_def Let_def split: option.splits)
  have e: "PageStore_realloc E ps ptr sz =
     (case malloc_new E ps sz of
        Return ret ps1 \<Rightarrow>
          (case ret of
             None \<Rightarrow> Return None ps1
           | Some new_ptr \<Rightarrow>
               (case (find_page (fst ptr) (pages ps1), find_page (fst new_ptr) (pages ps1)) of
                  (Some src, Some dst) \<Rightarrow>
                    let ptr_size = bh_size (bhs src (snd ptr)) - BH_SIZE (cfg E);
                        n = (if sz > ptr_size then ptr_size else sz);
                        dst1 = dst\<lparr>mem := (\<lambda>i. if snd new_ptr \<le> i \<and> i < snd new_ptr + n
                                              then mem src (snd ptr + (i - snd new_ptr))
                                              else mem dst i)\<rparr>;
                        ps2 = ps1\<lparr>pages := put_page dst1 (pages ps1)\<rparr>
                    in (case find_page (fst ptr) (pages ps2) of
                          None \<Rightarrow> Undefined
                        | Some src1 \<Rightarrow>
                            let src2 = src1\<lparr>bhs := (bhs src1)
                                         (snd ptr := BH_release (bhs src1 (snd ptr)))\<rparr>;
                                ps3 = ps2\<lparr>pages := put_page src2 (pages ps2)\<rparr>
                            in (case release ps3 ptr of
                                  Return u ps4 \<Rightarrow> Return (Some new_ptr) ps4
                                | Thrown ps4 \<Rightarrow> Thrown ps4
                                | Aborted \<Rightarrow> Aborted
                                | Undefined \<Rightarrow> Undefined))
                | _ \<Rightarrow> Undefined))
      | Thrown ps1 \<Rightarrow> Thrown ps1
      | Aborted \<Rightarrow> Aborted
      | Undefined \<Rightarrow> Undefined)"
    using sz h c pg by (simp add: PageStore_realloc_def Let_def Page_realloc_def)
  show ?thesis
  proof (cases "malloc_new E ps sz")
    case (Return ret ps1)
    then have i1: "PageStore_inv ps1" using inv_malloc_new [OF assms(1), of E sz ps1] by simp
    show ?thesis
    proof (cases ret)
      case None
      with Return e assms(2) i1 show ?thesis by simp
    next
      case (Some new_ptr)
      from Return Some e assms(2) obtain src dst where
        fs: "find_page (fst ptr) (pages ps1) = Some src"
        and fd: "find_page (fst new_ptr) (pages ps1) = Some dst"
        by (auto split: option.splits)
      define n where "n = (if sz > bh_size (bhs src (snd ptr)) - BH_SIZE (cfg E)
                           then bh_size (bhs src (snd ptr)) - BH_SIZE (cfg E) else sz)"
      define dst1 where "dst1 = dst\<lparr>mem := (\<lambda>i. if snd new_ptr \<le> i \<and> i < snd new_ptr + n
                                              then mem src (snd ptr + (i - snd new_ptr))
                                              else mem dst i)\<rparr>"
      define ps2 where "ps2 = ps1\<lparr>pages := put_page dst1 (pages ps1)\<rparr>"
      have i2: "PageStore_inv ps2"
        unfolding ps2_def using i1 fd by (rule inv_put_page) (simp_all add: dst1_def)
      from Return Some e assms(2) fs fd obtain src1 where
        f1: "find_page (fst ptr) (pages ps2) = Some src1"
        by (auto simp: Let_def n_def dst1_def ps2_def split: option.splits)
      define ps3 where "ps3 = ps2\<lparr>pages := put_page
          (src1\<lparr>bhs := (bhs src1)(snd ptr := BH_release (bhs src1 (snd ptr)))\<rparr>) (pages ps2)\<rparr>"
      have i3: "PageStore_inv ps3"
        unfolding ps3_def using i2 f1 by (rule inv_put_page) simp_all
      from Return Some e assms(2) fs fd f1 have "state_of (release ps3 ptr) = Some ps'"
        by (auto simp: Let_def n_def dst1_def ps2_def ps3_def split: outcome.splits)
      with i3 show ?thesis by (rule inv_release)
    qed
  next
    case (Thrown ps1)
    then have "PageStore_inv ps1" using inv_malloc_new [OF assms(1), of E sz ps1] by simp
    with Thrown e assms(2) show ?thesis by simp
  next
    case Aborted
    with e assms(2) show ?thesis by simp
  next
    case Undefined
    with e assms(2) show ?thesis by simp
  qed
qed

lemma inv_do_call:
  assumes "PageStore_inv ps" "do_call E c ps = Some ps'"
  shows "PageStore_inv ps'"
  using assms
  by (cases c)
     (auto intro: inv_PageStore_malloc inv_PageStore_realloc inv_release inv_set_enc_key
        inv_cleanup inv_reset inv_set_debug)

lemma inv_run:
  assumes "PageStore_inv ps" "run cs ps = Some ps'"
  shows "PageStore_inv ps'"
  using assms
proof (induction cs arbitrary: ps)
  case Nil
  then show ?case by simp
next
  case (Cons x cs)
  obtain E c where x: "x = (E, c)" by (cases x)
  from Cons.prems(2) x obtain s where s: "do_call E c ps = Some s" "run cs s = Some ps'"
    by (auto split: option.splits)
  from Cons.prems(1) s(1) have "PageStore_inv s" by (rule inv_do_call)
  then show ?case using s(2) by (rule Cons.IH)
qed

lemma inv_ctor: "PageStore_inv (PageStore_ctor K dir keep_sz page_sz dbg keep_pg)"
  by (simp add: PageStore_inv_def PageStore_ctor_def)

lemma new_page_total:
  assumes "new_page E ps sz = Return u ps'"
  shows "total_size ps' = total_size ps + aligned_size (cfg E) sz
         \<and> length (pages ps') = Suc (length (pages ps))"
  using assms
  by (auto simp: new_page_def Let_def Page_ctor_id Page_size_def put_page_length
           split: if_splits option.splits outcome.splits)

lemma delete_page_total:
  assumes "delete_page E ps = Return True ps'"
  shows "total_size ps' = total_size ps - Page_size (hd (pages ps)) \<and> pages ps' = tl (pages ps)"
  using assms
  by (auto simp: delete_page_def Let_def split: list.splits if_splits option.splits)

lemma inv_hd_le:
  assumes "PageStore_inv ps" "pages ps \<noteq> []"
  shows "Page_size (hd (pages ps)) \<le> total_size ps"
  using assms by (cases "pages ps") (auto simp: PageStore_inv_def)


section \<open>Allocation through the store\<close>

lemma PageStore_malloc_room:
  assumes "assert_size (cfg E) sz" "current ps = Some a" "find_page a (pages ps) = Some cur"
    "aligned_size (cfg E) sz \<le> pg_space cur"
  shows "PageStore_malloc E ps sz
           = Return (Some (a, pg_next cur))
               (ps\<lparr>pages := put_page (bumped (cfg E) cur sz) (pages ps)\<rparr>)"
  using assms by (simp add: PageStore_malloc_def Page_malloc_fits Let_def)

lemma PageStore_malloc_full:
  assumes "assert_size (cfg E) sz" "current ps = Some a" "find_page a (pages ps) = Some cur"
    "pg_space cur < aligned_size (cfg E) sz"
  shows "PageStore_malloc E ps sz = malloc_new E (retired E ps) sz"
  using assms by (simp add: PageStore_malloc_def Page_malloc_full Let_def retired_def)

lemma PageStore_malloc_first:
  assumes "assert_size (cfg E) sz" "current ps = None"
  shows "PageStore_malloc E ps sz = malloc_new E (retired E ps) sz"
  using assms by (simp add: PageStore_malloc_def retired_def)

lemma retired_fields:
  "count (retired E ps) = count ps" "base_name (retired E ps) = base_name ps"
  "enc_key (retired E ps) = enc_key ps" "page_size (retired E ps) = page_size ps"
  "keep_size (retired E ps) = keep_size ps" "total_size (retired E ps) = total_size ps"
  "current (retired E ps) = current ps" "map self (pages (retired E ps)) = map self (pages ps)"
  "length (pages (retired E ps)) = length (pages ps)"
  by (simp_all add: retired_def put_page_self put_page_length split: option.splits)

lemma retired_ok:
  "config_ok E (retired E ps) = config_ok E ps"
  "wanted_size E (retired E ps) sz = wanted_size E ps sz"
  by (simp_all add: config_ok_def wanted_size_def retired_fields)

lemma inv_retired:
  assumes "PageStore_inv ps"
  shows "PageStore_inv (retired E ps)"
proof (cases "current ps")
  case None
  with assms show ?thesis by (simp add: retired_def)
next
  case (Some a)
  show ?thesis
  proof (cases "find_page a (pages ps)")
    case None
    with Some assms show ?thesis by (simp add: retired_def)
  next
    case (Some cur)
    have "PageStore_inv (ps\<lparr>pages := put_page (Page_close (cfg E) cur) (pages ps)\<rparr>)"
      using assms Some by (rule inv_put_page) simp_all
    with Some \<open>current ps = Some a\<close> show ?thesis by (simp add: retired_def)
  qed
qed

lemma no_room_cases:
  assumes "PageStore_inv ps" "\<not> has_room E ps sz"
  shows "current ps = None
         \<or> (\<exists>a cur. current ps = Some a \<and> find_page a (pages ps) = Some cur
               \<and> pg_space cur < aligned_size (cfg E) sz)"
proof (cases "current ps")
  case None
  then show ?thesis by simp
next
  case (Some a)
  with assms(1) have "a \<in> self ` set (pages ps)" by (simp add: PageStore_inv_def)
  then obtain cur where "find_page a (pages ps) = Some cur"
    using find_page_None [of a "pages ps"] by (cases "find_page a (pages ps)") auto
  with Some assms(2) show ?thesis by (auto simp: has_room_def)
qed

lemma PageStore_malloc_no_room:
  assumes "assert_size (cfg E) sz" "PageStore_inv ps" "\<not> has_room E ps sz"
  shows "PageStore_malloc E ps sz = malloc_new E (retired E ps) sz"
  using no_room_cases [OF assms(2,3)] assms(1)
  by (auto simp: PageStore_malloc_full PageStore_malloc_first)

lemma popped_keeps_last:
  assumes p: "popped n ps ps'" and l: "pages ps = xs @ [q]" and u: "0 < pg_used q"
    and d: "distinct (map self (pages ps))" and c: "current ps = Some (self q)"
  shows "n \<le> length xs \<and> pages ps' = drop n xs @ [q] \<and> current ps' = Some (self q)
         \<and> (\<forall>x \<in> set (take n xs). pg_used x = 0)"
proof -
  have n: "n \<le> length xs"
    using popped_first_in_use [OF p, of "length xs"] l u by simp
  then have t: "take n (pages ps) = take n xs" and dr: "drop n (pages ps) = drop n xs @ [q]"
    by (simp_all add: l)
  from d l have "self q \<notin> self ` set xs" by auto
  then have "self q \<notin> self ` set (take n xs)" by (auto dest: in_set_takeD)
  with p c t dr n show ?thesis by (simp add: popped_def)
qed

lemma grown_fields:
  "pages (grown E ps sz)
     = pages ps @ [bumped (cfg E) (fresh_page E ps (wanted_size E ps sz)) sz]"
  "current (grown E ps sz) = Some (count ps)" "count (grown E ps sz) = count ps + 1"
  "trace (grown E ps sz) = trace ps" "keep_size (grown E ps sz) = keep_size ps"
  "total_size (grown E ps sz) = total_size ps + aligned_size (cfg E) (wanted_size E ps sz)"
  by (simp_all add: grown_def with_page_def fresh_page_fields Page_size_def)

lemma inv_grown: "PageStore_inv ps \<Longrightarrow> PageStore_inv (grown E ps sz)"
  unfolding grown_def by (rule inv_with_page) (simp_all add: fresh_page_fields)

text \<open>What \<open>malloc_new\<close> returns once the file of the new page could be created.\<close>

lemma malloc_new_result:
  assumes sz: "assert_size (cfg E) sz"
    and ok: "file_ok E (make_page_name (base_name ps) (count ps))
               (aligned_size (cfg E) (wanted_size E ps sz))"
    and cf: "config_ok E ps"
    and inv: "PageStore_inv ps"
  shows "\<exists>n ps'.
           malloc_new E ps sz
             = Return (Some (count ps, meta_size (cfg E) (length (enc_key ps)))) ps'
           \<and> (cleanup E (grown E ps sz) = Return () ps'
                \<or> (\<exists>s. cleanup E (grown E ps sz) = Thrown s
                      \<and> ps' = s\<lparr>trace := trace s @ [Log_error Cannot_create_page]\<rparr>))
           \<and> n \<le> length (pages ps)
           \<and> pages ps' = drop n (pages ps)
                @ [bumped (cfg E) (fresh_page E ps (wanted_size E ps sz)) sz]
           \<and> (\<forall>p \<in> set (take n (pages ps)). pg_used p = 0)
           \<and> current ps' = Some (count ps) \<and> count ps' = count ps + 1
           \<and> prefix (trace ps) (trace ps')"
proof -
  let ?g = "grown E ps sz"
  let ?np = "bumped (cfg E) (fresh_page E ps (wanted_size E ps sz)) sz"
  have ig: "PageStore_inv ?g" using inv by (rule inv_grown)
  then have "total_size ?g = sum_list (map Page_size (pages ?g))"
    and dg: "distinct (map self (pages ?g))"
    by (simp_all add: PageStore_inv_def)
  from cleanup_char [OF this(1), of E] obtain n s where
    r: "cleanup E ?g = Return () s \<or> cleanup E ?g = Thrown s" and pn: "popped n ?g s"
    unfolding cleanup_post_def by blast
  have k: "n \<le> length (pages ps) \<and> pages s = drop n (pages ps) @ [?np]
           \<and> current s = Some (self ?np) \<and> (\<forall>x \<in> set (take n (pages ps)). pg_used x = 0)"
    using pn _ _ dg
    by (rule popped_keeps_last) (simp_all add: grown_fields fresh_page_fields)
  from pn have cs: "count s = count ps + 1" "prefix (trace ps) (trace s)"
    by (simp_all add: popped_def grown_fields)
  have m: "malloc_new E ps sz
           = (case cleanup E ?g of
                Return v ps3 \<Rightarrow>
                  Return (Some (count ps, meta_size (cfg E) (length (enc_key ps)))) ps3
              | Thrown ps3 \<Rightarrow>
                  Return (Some (count ps, meta_size (cfg E) (length (enc_key ps))))
                    (ps3\<lparr>trace := trace ps3 @ [Log_error Cannot_create_page]\<rparr>)
              | Aborted \<Rightarrow> Aborted
              | Undefined \<Rightarrow> Undefined)"
    using sz ok cf inv_fresh [OF inv] by (rule malloc_new_ok)
  from r show ?thesis
  proof
    assume c: "cleanup E ?g = Return () s"
    with m k cs show ?thesis
      by (intro exI [of _ n] exI [of _ s]) (simp add: fresh_page_fields)
  next
    assume c: "cleanup E ?g = Thrown s"
    let ?s = "s\<lparr>trace := trace s @ [Log_error Cannot_create_page]\<rparr>"
    from cs(2) have "prefix (trace ps) (trace ?s)" by (simp add: prefix_def) auto
    with c m k cs show ?thesis
      by (intro exI [of _ n] exI [of _ ?s]) (simp add: fresh_page_fields)
  qed
qed

lemma set_enc_key_result:
  assumes ok: "file_ok E (make_page_name (base_name ps) (count ps))
                 (aligned_size (cfg E) (max (meta_size (cfg E) (length (enc_key ps))) (page_size ps)))"
    and cf: "config_ok E ps"
    and inv: "PageStore_inv ps"
  shows "set_enc_key E ps k
           = Return () ((with_page ps (fresh_page E ps
                 (max (meta_size (cfg E) (length (enc_key ps))) (page_size ps))))\<lparr>enc_key := k\<rparr>)"
proof -
  let ?m = "meta_size (cfg E) (length (enc_key ps))"
  have e: "(if ?m > page_size ps then ?m else page_size ps) = max ?m (page_size ps)"
    by (simp add: max_def)
  have "new_page E ps (max ?m (page_size ps))
          = Return () (with_page ps (fresh_page E ps (max ?m (page_size ps))))"
    using ok cf _ inv_fresh [OF inv] by (rule new_page_Return) simp
  then show ?thesis by (simp add: set_enc_key_def Let_def e)
qed

section \<open>reset and the destructor\<close>

lemma take_takeWhile:
  assumes "n \<le> length xs" "drop n xs = dropWhile P xs"
  shows "take n xs = takeWhile P xs"
  using assms(2) by (metis append_same_eq append_take_drop_id takeWhile_dropWhile_id)

lemma removed_files_logs [simp]:
  "removed_files (map (\<lambda>p. Log_error (f p)) xs) = []"
  by (induction xs) simp_all

lemma reset_result:
  "\<exists>n ps'. (PageStore_reset E ps = Return () ps' \<or> PageStore_reset E ps = Thrown ps')
      \<and> popped n ps ps'
      \<and> (PageStore_reset E ps = Return () ps' \<longrightarrow>
            pages ps' = dropWhile (\<lambda>p. pg_used p = 0) (pages ps)
            \<and> removed_files (trace ps')
                = removed_files (trace ps) @ map name (takeWhile (\<lambda>p. pg_used p = 0) (pages ps))
            \<and> (\<forall>p \<in> set (takeWhile (\<lambda>p. pg_used p = 0) (pages ps)). thread_err E (name p) = 0))
      \<and> (PageStore_reset E ps = Thrown ps' \<longrightarrow>
            0 < n \<and> thread_err E (name (pages ps ! (n - 1))) \<noteq> 0
            \<and> (\<forall>p \<in> set (take (n - 1) (pages ps)). thread_err E (name p) = 0)
            \<and> removed_files (trace ps')
                = removed_files (trace ps) @ map name (take (n - 1) (pages ps)))"
proof -
  let ?P = "\<lambda>p. pg_used p = 0"
  from reset_char [of E ps] obtain n ps' where
    r: "PageStore_reset E ps = Return () ps' \<or> PageStore_reset E ps = Thrown ps'"
    and pn: "popped n ps ps'"
    and ret: "PageStore_reset E ps = Return () ps' \<longrightarrow>
              (pages ps' = [] \<or> 0 < pg_used (hd (pages ps')))
              \<and> removed_files (trace ps') = removed_files (trace ps) @ map name (take n (pages ps))
              \<and> (\<forall>p \<in> set (take n (pages ps)). thread_err E (name p) = 0)"
    and thr: "PageStore_reset E ps = Thrown ps' \<longrightarrow>
              0 < n \<and> thread_err E (name (pages ps ! (n - 1))) \<noteq> 0
              \<and> (\<forall>p \<in> set (take (n - 1) (pages ps)). thread_err E (name p) = 0)
              \<and> removed_files (trace ps')
                  = removed_files (trace ps) @ map name (take (n - 1) (pages ps))"
    unfolding reset_post_def by blast
  have "pages ps' = dropWhile ?P (pages ps)
        \<and> removed_files (trace ps')
             = removed_files (trace ps) @ map name (takeWhile ?P (pages ps))
        \<and> (\<forall>p \<in> set (takeWhile ?P (pages ps)). thread_err E (name p) = 0)"
    if c: "PageStore_reset E ps = Return () ps'"
  proof -
    from pn have n: "n \<le> length (pages ps)" "\<forall>x \<in> set (take n (pages ps)). ?P x"
      and d: "pages ps' = drop n (pages ps)"
      by (simp_all add: popped_def)
    from c ret d have "drop n (pages ps) = [] \<or> \<not> ?P (hd (drop n (pages ps)))" by auto
    with n have e: "drop n (pages ps) = dropWhile ?P (pages ps)" by (rule drop_dropWhile)
    with n(1) have "take n (pages ps) = takeWhile ?P (pages ps)" by (rule take_takeWhile)
    with c ret d e show ?thesis by simp
  qed
  with r pn thr show ?thesis by blast
qed

lemma reset_outcome:
  "(\<exists>ps'. PageStore_reset E ps = Return () ps') \<or> (\<exists>ps'. PageStore_reset E ps = Thrown ps')"
  using reset_char [of E ps] unfolding reset_post_def by blast

lemma reset_keeps_debug:
  "PageStore_reset E ps = Return () ps' \<or> PageStore_reset E ps = Thrown ps' \<Longrightarrow>
     ps_debug ps' = ps_debug ps"
  using reset_char [of E ps] unfolding reset_post_def popped_def by auto

lemma print_walk_kind:
  assumes "print_walk K pg p w os = Some r"
  shows "(\<exists>os'. r = Return () os') \<or> r = Undefined"
  using assms
  by (rule print_walk.raw_induct [rotated 1,
        where P = "\<lambda>K pg p w os r. (\<exists>os'. r = Return () os') \<or> r = Undefined"])
     (auto simp: Let_def split: if_splits)

lemma print_walk_stuck:
  assumes "print_walk K pg p w os = Some r"
  shows "\<not> (p \<noteq> pg_next pg \<and> p + BH_SIZE K \<le> msize pg \<and> bh_size (bhs pg p) = 0)"
  using assms
  by (rule print_walk.raw_induct [rotated 1,
        where P = "\<lambda>K pg p w os r.
                     \<not> (p \<noteq> pg_next pg \<and> p + BH_SIZE K \<le> msize pg \<and> bh_size (bhs pg p) = 0)"])
     (rule notI, clarsimp simp: Let_def split: if_splits, (metis less_not_refl)+)

text \<open>
  While the position is not the cursor and the header there shows size 0, the walk of
  \<open>Page_print\<close> stays where it is: it has no result.
\<close>

lemma print_walk_None:
  "p \<noteq> pg_next pg \<Longrightarrow> p + BH_SIZE K \<le> msize pg \<Longrightarrow> bh_size (bhs pg p) = 0 \<Longrightarrow>
     print_walk K pg p w os = None"
  using print_walk_stuck [of K pg p w os] by (cases "print_walk K pg p w os") auto

lemma Page_print_kind:
  "Page_print K pg os = Some r \<Longrightarrow> (\<exists>os'. r = Return () os') \<or> r = Undefined"
  using print_walk_kind [of K pg 0 True _ r]
  by (auto simp: Page_print_def Let_def split: if_splits)

lemma print_pages_kind:
  "print_pages K xs tr = Some r \<Longrightarrow> (\<exists>tr'. r = Return () tr') \<or> r = Undefined"
proof (induction xs arbitrary: tr)
  case Nil
  then show ?case by auto
next
  case (Cons pg rest)
  show ?case
  proof (cases "Page_print K pg []")
    case None
    with Cons.prems show ?thesis by simp
  next
    case (Some q)
    from Page_print_kind [OF Some] Cons.prems Some Cons.IH show ?thesis by auto
  qed
qed

text \<open>With debugging off the destructor returns: what it adds to the state the loop left.\<close>

lemma dtor_result:
  assumes dbg: "ps_debug ps = 0"
  shows "PageStore_reset E ps = Return () s \<Longrightarrow>
           PageStore_dtor E ps
             = Some (Return ()
                 (s\<lparr>trace := trace s
                      @ (case delete_thr s of None \<Rightarrow> [] | Some thr \<Rightarrow> [Pthread_join thr])
                      @ (if pages s = [] then []
                         else [Log_error (Could_not_delete (length (pages s)))])\<rparr>))"
    and "PageStore_reset E ps = Thrown s \<Longrightarrow>
           PageStore_dtor E ps
             = Some (Return ()
                 (s\<lparr>trace := trace s @ [Log_error In_dtor]
                      @ (if pages s = [] then []
                         else [Log_error (Could_not_delete (length (pages s)))])\<rparr>))"
proof -
  assume c: "PageStore_reset E ps = Return () s"
  with reset_keeps_debug [of E ps s] dbg have d: "ps_debug s = 0" by simp
  show "PageStore_dtor E ps
             = Some (Return ()
                 (s\<lparr>trace := trace s
                      @ (case delete_thr s of None \<Rightarrow> [] | Some thr \<Rightarrow> [Pthread_join thr])
                      @ (if pages s = [] then []
                         else [Log_error (Could_not_delete (length (pages s)))])\<rparr>))"
    by (cases "delete_thr s") (simp_all add: PageStore_dtor_def c d Let_def)
next
  assume c: "PageStore_reset E ps = Thrown s"
  with reset_keeps_debug [of E ps s] dbg have d: "ps_debug s = 0" by simp
  show "PageStore_dtor E ps
             = Some (Return ()
                 (s\<lparr>trace := trace s @ [Log_error In_dtor]
                      @ (if pages s = [] then []
                         else [Log_error (Could_not_delete (length (pages s)))])\<rparr>))"
    by (simp add: PageStore_dtor_def c d Let_def)
qed

text \<open>Whatever the debugging level, the destructor neither throws nor aborts.\<close>

lemma dtor_kind:
  "PageStore_dtor E ps = Some r \<Longrightarrow> (\<exists>s. r = Return () s) \<or> r = Undefined"
proof -
  assume a: "PageStore_dtor E ps = Some r"
  from reset_outcome [of E ps] obtain s where
    c: "PageStore_reset E ps = Return () s \<or> PageStore_reset E ps = Thrown s" by blast
  define j where "j = (if PageStore_reset E ps = Return () s
          then (case delete_thr s of None \<Rightarrow> s
                | Some thr \<Rightarrow> s\<lparr>trace := trace s @ [Pthread_join thr]\<rparr>)
          else s\<lparr>trace := trace s @ [Log_error In_dtor]\<rparr>)"
  define j3 where "j3 = j\<lparr>trace := trace j @ [Log_error (Could_not_delete (length (pages j)))]\<rparr>"
  show ?thesis
  proof (cases "print_pages (cfg E) (pages j3) (trace j3)")
    case None
    with a c show ?thesis
      by (auto simp: PageStore_dtor_def Let_def j_def j3_def split: if_splits)
  next
    case (Some q)
    from print_pages_kind [OF Some] Some a c show ?thesis
      by (auto simp: PageStore_dtor_def Let_def j_def j3_def split: if_splits)
  qed
qed

section \<open>Reallocation\<close>

lemma realloc_nofile:
  assumes sz: "assert_size (cfg E) sz"
    and h: "find_page a (pages ps) = Some holder"
    and ctx: "bh_ctx (bhs holder off) = Some a"
    and nf: "\<not> file_ok E (make_page_name (base_name ps) (count ps))
               (aligned_size (cfg E) (wanted_size E ps sz))"
  shows "PageStore_realloc E ps (a, off) sz
           = Return None (ps\<lparr>trace := trace ps @ [Log_error Cannot_create_page]\<rparr>)"
  using sz h ctx malloc_new_nofile [OF sz nf]
  by (simp add: PageStore_realloc_def Let_def Page_realloc_def)

lemma realloc_ok:
  assumes sz: "assert_size (cfg E) sz" and inv: "PageStore_inv ps" and cf: "config_ok E ps"
    and h: "find_page a (pages ps) = Some holder"
    and ctx: "bh_ctx (bhs holder off) = Some a"
    and use: "0 < pg_used holder"
    and ok: "file_ok E (make_page_name (base_name ps) (count ps))
               (aligned_size (cfg E) (wanted_size E ps sz))"
  shows "\<exists>ps' src dst.
           PageStore_realloc E ps (a, off) sz
             = Return (Some (count ps, meta_size (cfg E) (length (enc_key ps)))) ps'
           \<and> find_page a (pages ps') = Some src
           \<and> find_page (count ps) (pages ps') = Some dst
           \<and> (\<forall>i < min (bh_size (bhs holder off) - BH_SIZE (cfg E)) sz.
                 mem dst (meta_size (cfg E) (length (enc_key ps)) + i) = mem holder (off + i))
           \<and> bhs src off = BH_release (bhs holder off)
           \<and> pg_used src = pg_used holder - 1
           \<and> mem src = mem holder
           \<and> pg_used dst = 1
           \<and> pg_next dst = meta_size (cfg E) (length (enc_key ps)) + aligned_size (cfg E) sz
           \<and> dst = (bumped (cfg E) (fresh_page E ps (wanted_size E ps sz)) sz)
                   \<lparr>mem := (\<lambda>i. if meta_size (cfg E) (length (enc_key ps)) \<le> i
                                   \<and> i < meta_size (cfg E) (length (enc_key ps))
                                         + min (bh_size (bhs holder off) - BH_SIZE (cfg E)) sz
                                then mem holder
                                       (off + (i - meta_size (cfg E) (length (enc_key ps))))
                                else mem (fresh_page E ps (wanted_size E ps sz)) i)\<rparr>
           \<and> src = holder\<lparr>bhs := (bhs holder)(off := BH_release (bhs holder off)),
                           pg_used := pg_used holder - 1\<rparr>
           \<and> (\<forall>q \<in> set (pages ps'). self q \<noteq> a \<and> self q \<noteq> count ps \<longrightarrow> q \<in> set (pages ps))"
proof -
  let ?K = "cfg E"
  let ?m = "meta_size ?K (length (enc_key ps))"
  let ?np = "bumped ?K (fresh_page E ps (wanted_size E ps sz)) sz"
  from cf have al: "0 < ALIGNMENT ?K" by (simp add: config_ok_def)
  from malloc_new_result [OF sz ok cf inv] obtain n ps1 where
    mn: "malloc_new E ps sz = Return (Some (count ps, ?m)) ps1"
    and n: "n \<le> length (pages ps)" and pg: "pages ps1 = drop n (pages ps) @ [?np]"
    and u: "\<forall>p \<in> set (take n (pages ps)). pg_used p = 0"
    by blast
  have i1: "PageStore_inv ps1" using inv_malloc_new [OF inv, of E sz ps1] mn by simp
  then have d1: "distinct (map self (pages ps1))" by (simp add: PageStore_inv_def)
  from h have hs: "holder \<in> set (pages ps)" "self holder = a" by (simp_all add: find_page_Some)
  from inv hs have lt: "a < count ps" by (auto simp: PageStore_inv_def)
  have "holder \<notin> set (take n (pages ps))" using u use by auto
  with hs(1) have "holder \<in> set (drop n (pages ps))"
    by (metis Un_iff append_take_drop_id set_append)
  then have hin: "holder \<in> set (pages ps1)" by (simp add: pg)
  have f1: "find_page a (pages ps1) = Some holder"
    using find_page_distinct [OF d1 hin] hs(2) by simp
  have ns: "self ?np = count ps" by (simp add: fresh_page_fields)
  have f2: "find_page (count ps) (pages ps1) = Some ?np"
    using find_page_distinct [OF d1, of ?np] by (simp add: pg ns del: bumped_fields)
  define k where "k = (if sz > bh_size (bhs holder off) - BH_SIZE ?K
                       then bh_size (bhs holder off) - BH_SIZE ?K else sz)"
  define dst1 where "dst1 = ?np\<lparr>mem := (\<lambda>i. if ?m \<le> i \<and> i < ?m + k
                                         then mem holder (off + (i - ?m)) else mem ?np i)\<rparr>"
  define ps2 where "ps2 = ps1\<lparr>pages := put_page dst1 (pages ps1)\<rparr>"
  define src2 where "src2 = holder\<lparr>bhs := (bhs holder)(off := BH_release (bhs holder off))\<rparr>"
  define ps3 where "ps3 = ps2\<lparr>pages := put_page src2 (pages ps2)\<rparr>"
  define ps4 where "ps4 = ps3\<lparr>pages := put_page (Page_free src2) (pages ps3)\<rparr>"
  have ds: "self dst1 = count ps" by (simp add: dst1_def fresh_page_fields)
  have ss: "self src2 = a" by (simp add: src2_def hs)
  have ain1: "a \<in> self ` set (pages ps1)" using hin hs(2) by force
  have cin1: "count ps \<in> self ` set (pages ps1)" by (simp add: pg ns del: bumped_fields)
  have sf2: "self ` set (pages ps2) = self ` set (pages ps1)"
    unfolding ps2_def using put_page_self [of dst1 "pages ps1"] by (simp, metis set_map)
  have sf3: "self ` set (pages ps3) = self ` set (pages ps1)"
    unfolding ps3_def using put_page_self [of src2 "pages ps2"] sf2 by (simp, metis set_map)
  have g2: "find_page a (pages ps2) = Some holder"
    using lt f1 by (simp add: ps2_def find_put_page ds)
  have g3: "find_page a (pages ps3) = Some src2"
    using ain1 sf2 by (simp add: ps3_def find_put_page ss)
  have c3: "bh_ctx (bhs src2 off) = Some a" by (simp add: src2_def BH_release_def ctx)
  have rel: "release ps3 (a, off) = Return () ps4"
    by (simp add: release_def g3 c3 ps4_def)
  have r: "PageStore_realloc E ps (a, off) sz = Return (Some (count ps, ?m)) ps4"
    using sz h ctx mn f1 f2 g2 rel
    unfolding ps4_def ps3_def src2_def ps2_def dst1_def k_def
    by (simp add: PageStore_realloc_def Let_def Page_realloc_def del: bumped_fields
          split del: if_split cong: if_cong)
  have e1: "find_page a (pages ps4) = Some (Page_free src2)"
    using ain1 sf3 by (simp add: ps4_def find_put_page ss)
  have e2: "find_page (count ps) (pages ps4) = Some dst1"
    using lt cin1 by (simp add: ps4_def ps3_def ps2_def find_put_page ss ds)
  have cp: "\<forall>i < min (bh_size (bhs holder off) - BH_SIZE ?K) sz. mem dst1 (?m + i) = mem holder (off + i)"
    by (auto simp: dst1_def k_def)
  have nx: "pg_next dst1 = ?m + aligned_size ?K sz"
    using fresh_page_room(1) [OF al wanted_size_meta, of ps sz] by (simp add: dst1_def)
  have rest: "bhs (Page_free src2) off = BH_release (bhs holder off)"
    "pg_used (Page_free src2) = pg_used holder - 1" "mem (Page_free src2) = mem holder"
    "pg_used dst1 = 1"
    by (simp_all add: src2_def dst1_def fresh_page_fields)
  have km: "k = min (bh_size (bhs holder off) - BH_SIZE ?K) sz"
    by (simp add: k_def min_def)
  have xd: "dst1 = ?np\<lparr>mem := (\<lambda>i. if ?m \<le> i
                                   \<and> i < ?m + min (bh_size (bhs holder off) - BH_SIZE ?K) sz
                                then mem holder (off + (i - ?m))
                                else mem (fresh_page E ps (wanted_size E ps sz)) i)\<rparr>"
    by (simp add: dst1_def km cong: if_cong)
  have xs: "Page_free src2 = holder\<lparr>bhs := (bhs holder)(off := BH_release (bhs holder off)),
                           pg_used := pg_used holder - 1\<rparr>"
    by (simp add: src2_def Page_free_def)
  have others: "\<forall>q \<in> set (pages ps4). self q \<noteq> a \<and> self q \<noteq> count ps \<longrightarrow> q \<in> set (pages ps)"
  proof (intro ballI impI)
    fix q assume q: "q \<in> set (pages ps4)" and nq: "self q \<noteq> a \<and> self q \<noteq> count ps"
    from q nq have "q \<in> set (pages ps3)"
      using in_put_page [of q "Page_free src2" "pages ps3"] by (auto simp: ps4_def ss)
    with nq have "q \<in> set (pages ps2)"
      using in_put_page [of q src2 "pages ps2"] by (auto simp: ps3_def ss)
    with nq have "q \<in> set (pages ps1)"
      using in_put_page [of q dst1 "pages ps1"] by (auto simp: ps2_def ds)
    with nq ns have "q \<in> set (drop n (pages ps))" by (auto simp: pg simp del: bumped_fields)
    then show "q \<in> set (pages ps)" by (rule in_set_dropD)
  qed
  from r e1 e2 cp nx rest xd xs others show ?thesis by blast
qed

section \<open>The concrete stores\<close>

lemma name0: "make_page_name ''gcache.page.'' 0 = ''gcache.page.000000''"
  by code_simp

lemma name1: "make_page_name ''gcache.page.'' (Suc 0) = ''gcache.page.000001''"
  by code_simp

lemma K0_sizes:
  "BH_aligned_size K0 0 = 24" "meta_size K0 0 = 40" "assert_size K0 s \<longleftrightarrow> s \<le> 1000000"
  by (simp_all add: BH_aligned_size_def meta_size_def assert_size_def aligned_size_K0 K0_simps)

lemma E0_fields:
  "cfg E0 = K0" "file_ok E0 nm sz" "file_mem E0 nm = zero_mem" "file_bhs E0 nm = zero_bhs"
  "rand_nonce E0 nm = nonce0" "thread_err E0 nm = 0"
  by (simp_all add: E0_def)

lemma E_nofile_fields: "cfg E_nofile = K0" "\<not> file_ok E_nofile nm sz"
  by (simp_all add: E_nofile_def E0_def)

lemma store0_fields:
  "pages store0 = []" "current store0 = None" "count store0 = 0" "total_size store0 = 0"
  "base_name store0 = ''gcache.page.''" "enc_key store0 = []" "page_size store0 = 64"
  "keep_size store0 = 0" "trace store0 = []" "delete_thr store0 = None" "ps_debug store0 = 0"
  by (simp_all add: store0_def PageStore_ctor_def make_base_name_def)

lemma store0_ok: "config_ok E0 store0" "PageStore_inv store0" "wanted_size E0 store0 8 = 64"
  by (simp_all add: config_ok_def E0_fields K0_simps K0_sizes store0_fields wanted_size_def
        PageStore_inv_def)

lemma page1_fields:
  "self page1 = 0" "name page1 = ''gcache.page.000000''" "msize page1 = 64"
  "pg_next page1 = 48" "pg_space page1 = 16" "pg_used page1 = 1"
proof -
  have r: "0 < ALIGNMENT (cfg E0)" "meta_size (cfg E0) (length (enc_key store0)) \<le> 64"
    by (simp_all add: E0_fields K0_simps K0_sizes store0_fields)
  show "self page1 = 0" "name page1 = ''gcache.page.000000''" "msize page1 = 64"
    "pg_used page1 = 1"
    by (simp_all add: page1_def fresh_page_fields store0_fields name0 E0_fields aligned_size_K0)
  show "pg_next page1 = 48" "pg_space page1 = 16"
    by (simp_all add: page1_def fresh_page_room [OF r] E0_fields K0_sizes store0_fields
          aligned_size_K0)
qed

lemma grown0: "grown E0 store0 8 = with_page store0 page1"
  by (simp add: grown_def page1_def store0_ok E0_fields)

lemma store1_fields:
  "pages store1 = [page1]" "current store1 = Some 0" "count store1 = 1" "total_size store1 = 64"
  "base_name store1 = ''gcache.page.''" "enc_key store1 = []" "page_size store1 = 64"
  "keep_size store1 = 0" "trace store1 = []" "delete_thr store1 = None" "ps_debug store1 = 0"
  and store1_malloc: "PageStore_malloc E0 store0 8 = Return (Some (0, 40)) store1"
proof -
  let ?g = "with_page store0 page1"
  have c: "cleanup E0 ?g = Return () ?g"
    by (subst cleanup.simps)
       (simp add: page_cleanup_needed_def with_page_def store0_fields Page_size_def
          page1_fields delete_page_def)
  have "malloc_new E0 store0 8 = Return (Some (0, 40)) ?g"
    using malloc_new_ok [of E0 8 store0]
    by (simp add: E0_fields K0_sizes store0_ok store0_fields grown0 c)
  then have m: "PageStore_malloc E0 store0 8 = Return (Some (0, 40)) ?g"
    by (simp add: PageStore_malloc_def E0_fields K0_sizes store0_fields)
  then have s: "store1 = ?g" by (simp add: store1_def after_def)
  from m s show "PageStore_malloc E0 store0 8 = Return (Some (0, 40)) store1" by simp
  show "pages store1 = [page1]" "current store1 = Some 0" "count store1 = 1"
    "total_size store1 = 64" "base_name store1 = ''gcache.page.''" "enc_key store1 = []"
    "page_size store1 = 64" "keep_size store1 = 0" "trace store1 = []"
    "delete_thr store1 = None" "ps_debug store1 = 0"
    by (simp_all add: s with_page_def store0_fields page1_fields Page_size_def)
qed

lemma store1_ok: "config_ok E0 store1" "PageStore_inv store1" "config_ok E_nofile store1"
  by (simp_all add: config_ok_def E0_fields E_nofile_fields K0_simps K0_sizes store1_fields
        PageStore_inv_def page1_fields Page_size_def)

lemma store1_room: "has_room E0 store1 8" "\<not> has_room E_nofile store1 24" "\<not> has_room E0 store0 8"
  by (simp_all add: has_room_def store1_fields store0_fields page1_fields E0_fields
        E_nofile_fields aligned_size_K0)

lemma page1_close: "Page_close K0 page1 = page1"
  by (simp add: Page_close_def page1_fields K0_simps)

lemma store1f_eq:
  "PageStore_malloc E_nofile store1 24 = Return None store1f"
  "store1f = store1\<lparr>trace := [Drop_fs_cache ''gcache.page.000000'',
                               Log_error Cannot_create_page]\<rparr>"
proof -
  have r: "retired E_nofile store1 = store1\<lparr>trace := [Drop_fs_cache ''gcache.page.000000'']\<rparr>"
    by (simp add: retired_def store1_fields page1_fields E_nofile_fields page1_close
          put_page_def)
  have "PageStore_malloc E_nofile store1 24 = malloc_new E_nofile (retired E_nofile store1) 24"
    using store1_ok(2) store1_room(2)
    by (intro PageStore_malloc_no_room) (simp_all add: E_nofile_fields K0_sizes)
  also have "\<dots> = Return None ((retired E_nofile store1)
                 \<lparr>trace := trace (retired E_nofile store1) @ [Log_error Cannot_create_page]\<rparr>)"
    by (intro malloc_new_nofile) (simp_all add: E_nofile_fields K0_sizes)
  finally have m: "PageStore_malloc E_nofile store1 24
      = Return None (store1\<lparr>trace := [Drop_fs_cache ''gcache.page.000000'',
                                      Log_error Cannot_create_page]\<rparr>)"
    by (simp add: r)
  then show "store1f = store1\<lparr>trace := [Drop_fs_cache ''gcache.page.000000'',
                               Log_error Cannot_create_page]\<rparr>"
    by (simp add: store1f_def after_def)
  with m show "PageStore_malloc E_nofile store1 24 = Return None store1f" by simp
qed

lemma store1f_malloc:
  "PageStore_malloc E0 store1f 8
     = Return (Some (0, 48)) (store1f\<lparr>pages := [bumped K0 page1 8]\<rparr>)"
proof -
  have "PageStore_malloc E0 store1f 8
     = Return (Some (0, pg_next page1))
         (store1f\<lparr>pages := put_page (bumped (cfg E0) page1 8) (pages store1f)\<rparr>)"
    by (rule PageStore_malloc_room)
       (simp_all add: store1f_eq store1_fields page1_fields E0_fields K0_sizes aligned_size_K0)
  then show ?thesis
    by (simp add: store1f_eq store1_fields page1_fields E0_fields put_page_def)
qed

lemma page_k_fields:
  "self page_k = 0" "name page_k = ''gcache.page.000000''" "msize page_k = 64"
  "pg_used page_k = 0" "Page_size page_k = 64"
  by (simp_all add: page_k_def fresh_page_fields store0_fields name0 E0_fields aligned_size_K0)

lemma store_k_fields:
  "set_enc_key E0 store0 [] = Return () store_k"
  "pages store_k = [page_k]" "total_size store_k = 64" "keep_size store_k = 0"
  "current store_k = Some 0" "trace store_k = []" "delete_thr store_k = None"
  "ps_debug store_k = 0"
proof -
  have m: "max (meta_size K0 (length (enc_key store0))) (page_size store0) = 64"
    by (simp add: K0_sizes store0_fields)
  have "set_enc_key E0 store0 []
          = Return () ((with_page store0 (fresh_page E0 store0 64))\<lparr>enc_key := []\<rparr>)"
    using set_enc_key_result [of E0 store0 "[]"] store0_ok by (simp add: E0_fields m)
  then have r: "set_enc_key E0 store0 [] = Return () ((with_page store0 page_k)\<lparr>enc_key := []\<rparr>)"
    by (simp add: page_k_def)
  then have s: "store_k = (with_page store0 page_k)\<lparr>enc_key := []\<rparr>"
    by (simp add: store_k_def after_def)
  from r s show "set_enc_key E0 store0 [] = Return () store_k" by simp
  show "pages store_k = [page_k]" "total_size store_k = 64" "keep_size store_k = 0"
    "current store_k = Some 0" "trace store_k = []" "delete_thr store_k = None"
    "ps_debug store_k = 0"
    by (simp_all add: s with_page_def store0_fields page_k_fields)
qed

lemma page2_fields:
  "self page2 = 1" "name page2 = ''gcache.page.000001''" "msize page2 = 64"
  "pg_used page2 = 0" "Page_size page2 = 64"
  by (simp_all add: page2_def fresh_page_fields store1_fields name1 E0_fields aligned_size_K0)

lemma store2_fields:
  "set_enc_key E0 store1 [] = Return () store2"
  "pages store2 = [page1, page2]" "total_size store2 = 128" "keep_size store2 = 0"
  "current store2 = Some 1" "trace store2 = []" "delete_thr store2 = None"
  "ps_debug store2 = 0"
proof -
  have m: "max (meta_size K0 (length (enc_key store1))) (page_size store1) = 64"
    by (simp add: K0_sizes store1_fields)
  have "set_enc_key E0 store1 []
          = Return () ((with_page store1 (fresh_page E0 store1 64))\<lparr>enc_key := []\<rparr>)"
    using set_enc_key_result [of E0 store1 "[]"] store1_ok by (simp add: E0_fields m)
  then have r: "set_enc_key E0 store1 [] = Return () ((with_page store1 page2)\<lparr>enc_key := []\<rparr>)"
    by (simp add: page2_def)
  then have s: "store2 = (with_page store1 page2)\<lparr>enc_key := []\<rparr>"
    by (simp add: store2_def after_def)
  from r s show "set_enc_key E0 store1 [] = Return () store2" by simp
  show "pages store2 = [page1, page2]" "total_size store2 = 128" "keep_size store2 = 0"
    "current store2 = Some 1" "trace store2 = []" "delete_thr store2 = None"
    "ps_debug store2 = 0"
    by (simp_all add: s with_page_def store1_fields page2_fields)
qed

lemma store_k_cleanup:
  "cleanup E0 store_k
     = Return () (store_k\<lparr>pages := [], total_size := 0, current := None,
                          delete_thr := Some ''gcache.page.000000'',
                          trace := [Remove_file ''gcache.page.000000'']\<rparr>)"
  by (subst cleanup.simps, simp add: page_cleanup_needed_def store_k_fields delete_page_def
        page_k_fields E0_fields Let_def)
     (subst cleanup.simps, simp add: page_cleanup_needed_def store_k_fields)

lemma store_k_reset:
  "PageStore_reset E0 store_k
     = Return () (store_k\<lparr>pages := [], total_size := 0, current := None,
                          delete_thr := Some ''gcache.page.000000'',
                          trace := [Remove_file ''gcache.page.000000'']\<rparr>)"
  by (subst PageStore_reset.simps, simp add: store_k_fields delete_page_def
        page_k_fields E0_fields Let_def)
     (subst PageStore_reset.simps, simp add: store_k_fields)

lemma store_k_dtor:
  "PageStore_dtor E0 store_k
     = Some (Return ()
         (store_k\<lparr>pages := [], total_size := 0, current := None,
                  delete_thr := Some ''gcache.page.000000'',
                  trace := [Remove_file ''gcache.page.000000'',
                            Pthread_join ''gcache.page.000000'']\<rparr>))"
  by (simp add: PageStore_dtor_def store_k_reset Let_def)

lemma store2_reset: "PageStore_reset E0 store2 = Return () store2"
  by (subst PageStore_reset.simps) (simp add: store2_fields delete_page_def page1_fields)

lemma page_k_room: "pg_next page_k = 40" "pg_space page_k = 24"
proof -
  have r: "0 < ALIGNMENT (cfg E0)" "meta_size (cfg E0) (length (enc_key store0)) \<le> 64"
    by (simp_all add: E0_fields K0_simps K0_sizes store0_fields)
  show "pg_next page_k = 40" "pg_space page_k = 24"
    by (simp_all add: page_k_def fresh_page_room [OF r] E0_fields K0_sizes store0_fields
          aligned_size_K0)
qed

lemma store2_dtor:
  "PageStore_dtor E0 store2
     = Some (Return () (store2\<lparr>trace := [Log_error (Could_not_delete 2)]\<rparr>))"
  by (simp add: PageStore_dtor_def store2_reset store2_fields Let_def)

text \<open>
  With debugging on, the destructor of \<open>store2d\<close> prints the page in use. The header that
  the walk of \<open>Page_print\<close> reads at offset 0 lies on the nonce; it is the header view of the
  mapping there, which no call has written and which shows size 0 on this file: the walk
  does not move, and the destructor does not return.
\<close>

lemma page1_header0: "bh_size (bhs page1 0) = 0"
proof -
  have r: "0 < ALIGNMENT (cfg E0)" "meta_size (cfg E0) (length (enc_key store0)) \<le> 64"
    by (simp_all add: E0_fields K0_simps K0_sizes store0_fields)
  have "pg_next (Page_ctor (cfg E0) (count store0)
                   (make_page_name (base_name store0) (count store0))
                   (rand_nonce E0 (make_page_name (base_name store0) (count store0)))
                   (enc_key store0) 64 (ps_debug store0)
                   (file_mem E0 (make_page_name (base_name store0) (count store0)))
                   (file_bhs E0 (make_page_name (base_name store0) (count store0)))) \<noteq> 0"
    by (simp add: Page_ctor_room E0_fields K0_simps K0_sizes aligned_size_K0)
  then show ?thesis
    by (simp add: page1_def fresh_page_def Let_def Page_ctor_id E0_fields zero_bhs_def
          BH_clear_def)
qed

lemma store2d_fields:
  "pages store2d = [page1\<lparr>pg_debug := 4\<rparr>, page2\<lparr>pg_debug := 4\<rparr>]" "ps_debug store2d = 4"
  "delete_thr store2d = None"
  by (simp_all add: store2d_def set_debug_def Let_def store2_fields K0_simps)

lemma store2d_reset: "PageStore_reset E0 store2d = Return () store2d"
  by (subst PageStore_reset.simps) (simp add: store2d_fields delete_page_def page1_fields)

lemma store2d_dtor: "PageStore_dtor E0 store2d = None"
proof -
  have "print_walk K0 (page1\<lparr>pg_debug := 4\<rparr>) 0 True os = None" for os
    by (rule print_walk_None) (simp_all add: page1_fields page1_header0 K0_simps)
  then have "Page_print K0 (page1\<lparr>pg_debug := 4\<rparr>) [] = None"
    by (simp add: Page_print_def Let_def page1_fields)
  then show ?thesis
    by (simp add: PageStore_dtor_def store2d_reset store2d_fields Let_def E0_fields)
qed


lemma store1h_fields:
  "pages store1h = [page1h]" "current store1h = Some 0" "count store1h = 1"
  "total_size store1h = 64" "base_name store1h = ''gcache.page.''" "enc_key store1h = []"
  "page_size store1h = 64" "keep_size store1h = 0" "trace store1h = []"
  by (simp_all add: store1h_def fill_slot_def store1_fields page1_fields put_page_def
        page1h_def cong: if_cong)

lemma page1h_fields:
  "self page1h = 0" "msize page1h = 64" "pg_used page1h = 1" "Page_size page1h = 64"
  "bh_ctx (bhs page1h 40) = Some 0" "bh_size (bhs page1h 40) = 32"
  "bh_released (bhs page1h 40) = False"
  "mem page1h 40 = 161" "mem page1h 43 = 164" "mem page1h 44 = 165"
  by (simp_all add: page1h_def header1_def payload1_def page1_fields Page_size_def)

lemma store1h_ok:
  "config_ok E0 store1h" "PageStore_inv store1h" "config_ok E_nofile store1h"
  "wanted_size E0 store1h 4 = 64" "wanted_size E_nofile store1h 4 = 64"
  by (simp_all add: config_ok_def E0_fields E_nofile_fields K0_simps K0_sizes store1h_fields
        PageStore_inv_def page1h_fields wanted_size_def)

lemma fresh_page_mem:
  "mem (fresh_page E ps sz)
     = fst (Nonce_write (cfg E) (rand_nonce E (make_page_name (base_name ps) (count ps)))
              (file_mem E (make_page_name (base_name ps) (count ps))) 0 (aligned_size (cfg E) sz))"
  by (simp add: fresh_page_def Page_ctor_def Let_def split: prod.splits)

lemma store1h_fresh_mem: "mem (fresh_page E0 store1h 64) 44 = 0"
  by (simp add: fresh_page_mem E0_fields Nonce_write_def Let_def nonce_serial_size_def
        K0_simps zero_mem_def)

lemma E_nothread_fields: "thread_err E_nothread nm = 11"
  by (simp add: E_nothread_def)

lemma store_k_nothread:
  "PageStore_reset E_nothread store_k = Thrown store_k_popped"
  "PageStore_dtor E_nothread store_k
     = Some (Return () (store_k_popped\<lparr>trace := [Log_error In_dtor]\<rparr>))"
proof -
  have e: "store_k\<lparr>pages := [], total_size := 0, current := None, delete_thr := None\<rparr>
             = store_k_popped"
    by (simp add: store_k_popped_def store_k_fields)
  show r: "PageStore_reset E_nothread store_k = Thrown store_k_popped"
    by (subst PageStore_reset.simps)
       (simp add: store_k_fields delete_page_def page_k_fields Let_def e E_nothread_fields)
  show "PageStore_dtor E_nothread store_k
          = Some (Return () (store_k_popped\<lparr>trace := [Log_error In_dtor]\<rparr>))"
    by (simp add: PageStore_dtor_def r Let_def store_k_popped_def store_k_fields)
qed

section \<open>The claims about the store\<close>

text \<open>
  C3. For a size that passes the limit check, on a store that satisfies its invariant and
  whose key buffer passes the limit check, \<open>PageStore_malloc\<close> always returns. When the
  current page has room it returns the cursor of that page and only bumps that page. Otherwise
  the current page, if any, is closed and its cache dropped, and a page of the aligned maximum
  of the page size and the request plus the metadata overhead is created under the next
  name: if the file cannot be created the call logs an error and returns null with nothing
  else changed; if it can, the request is allocated right behind the metadata of the new
  page, which becomes the current and newest page with one buffer in use, and the store is
  the one \<open>cleanup\<close> leaves (with an error logged when cleanup threw), the \<open>n\<close> oldest pages,
  none of them in use, removed.
\<close>

theorem PageStore_malloc_spec:
  assumes sz: "assert_size (cfg E) sz" and inv: "PageStore_inv ps" and cf: "config_ok E ps"
  shows "(has_room E ps sz \<longrightarrow>
            (\<exists>a cur. current ps = Some a \<and> find_page a (pages ps) = Some cur
               \<and> PageStore_malloc E ps sz
                   = Return (Some (a, pg_next cur))
                       (ps\<lparr>pages := put_page (bumped (cfg E) cur sz) (pages ps)\<rparr>)))
       \<and> (\<not> has_room E ps sz
            \<and> \<not> file_ok E (make_page_name (base_name ps) (count ps))
                   (aligned_size (cfg E) (wanted_size E ps sz)) \<longrightarrow>
            PageStore_malloc E ps sz
              = Return None
                  ((retired E ps)\<lparr>trace := trace (retired E ps) @ [Log_error Cannot_create_page]\<rparr>))
       \<and> (\<not> has_room E ps sz
            \<and> file_ok E (make_page_name (base_name ps) (count ps))
                 (aligned_size (cfg E) (wanted_size E ps sz)) \<longrightarrow>
            (\<exists>n ps' np.
               PageStore_malloc E ps sz
                 = Return (Some (count ps, meta_size (cfg E) (length (enc_key ps)))) ps'
               \<and> (cleanup E (grown E (retired E ps) sz) = Return () ps'
                    \<or> (\<exists>s. cleanup E (grown E (retired E ps) sz) = Thrown s
                          \<and> ps' = s\<lparr>trace := trace s @ [Log_error Cannot_create_page]\<rparr>))
               \<and> n \<le> length (pages ps)
               \<and> pages ps' = drop n (pages (retired E ps)) @ [np]
               \<and> (\<forall>p \<in> set (take n (pages (retired E ps))). pg_used p = 0)
               \<and> self np = count ps
               \<and> msize np = aligned_size (cfg E) (wanted_size E ps sz)
               \<and> pg_used np = 1
               \<and> pg_next np = meta_size (cfg E) (length (enc_key ps)) + aligned_size (cfg E) sz
               \<and> pg_next np \<le> msize np
               \<and> current ps' = Some (count ps) \<and> count ps' = count ps + 1
               \<and> prefix (trace (retired E ps)) (trace ps')))"
proof (intro conjI impI)
  assume "has_room E ps sz"
  then obtain a cur where c: "current ps = Some a" "find_page a (pages ps) = Some cur"
    "aligned_size (cfg E) sz \<le> pg_space cur"
    by (auto simp: has_room_def split: option.splits)
  with PageStore_malloc_room [OF sz c]
  show "\<exists>a cur. current ps = Some a \<and> find_page a (pages ps) = Some cur
          \<and> PageStore_malloc E ps sz
              = Return (Some (a, pg_next cur))
                  (ps\<lparr>pages := put_page (bumped (cfg E) cur sz) (pages ps)\<rparr>)"
    by blast
next
  assume a: "\<not> has_room E ps sz
             \<and> \<not> file_ok E (make_page_name (base_name ps) (count ps))
                    (aligned_size (cfg E) (wanted_size E ps sz))"
  then have "PageStore_malloc E ps sz = malloc_new E (retired E ps) sz"
    using sz inv by (simp add: PageStore_malloc_no_room)
  moreover have "malloc_new E (retired E ps) sz
      = Return None ((retired E ps)\<lparr>trace := trace (retired E ps) @ [Log_error Cannot_create_page]\<rparr>)"
    using sz a by (intro malloc_new_nofile) (simp_all add: retired_fields retired_ok)
  ultimately show "PageStore_malloc E ps sz
      = Return None ((retired E ps)\<lparr>trace := trace (retired E ps) @ [Log_error Cannot_create_page]\<rparr>)"
    by simp
next
  let ?K = "cfg E"
  let ?r = "retired E ps"
  let ?np = "bumped ?K (fresh_page E ?r (wanted_size E ?r sz)) sz"
  let ?m = "meta_size ?K (length (enc_key ps))"
  assume a: "\<not> has_room E ps sz
             \<and> file_ok E (make_page_name (base_name ps) (count ps))
                  (aligned_size (cfg E) (wanted_size E ps sz))"
  then have e: "PageStore_malloc E ps sz = malloc_new E ?r sz"
    using sz inv by (simp add: PageStore_malloc_no_room)
  from cf have al: "0 < ALIGNMENT ?K" by (simp add: config_ok_def)
  have ok: "file_ok E (make_page_name (base_name ?r) (count ?r))
              (aligned_size ?K (wanted_size E ?r sz))"
    using a by (simp add: retired_fields retired_ok)
  have cr: "config_ok E ?r" using cf by (simp add: retired_ok)
  have ir: "PageStore_inv ?r" using inv by (rule inv_retired)
  from malloc_new_result [OF sz ok cr ir] obtain n ps' where
    r: "malloc_new E ?r sz = Return (Some (count ?r, meta_size ?K (length (enc_key ?r)))) ps'"
    and c: "cleanup E (grown E ?r sz) = Return () ps'
            \<or> (\<exists>s. cleanup E (grown E ?r sz) = Thrown s
                  \<and> ps' = s\<lparr>trace := trace s @ [Log_error Cannot_create_page]\<rparr>)"
    and n: "n \<le> length (pages ?r)" and pg: "pages ps' = drop n (pages ?r) @ [?np]"
    and u: "\<forall>p \<in> set (take n (pages ?r)). pg_used p = 0"
    and cu: "current ps' = Some (count ?r)" "count ps' = count ?r + 1"
    and tr: "prefix (trace ?r) (trace ps')"
    by blast
  have wm: "meta_size ?K (length (enc_key ?r)) \<le> wanted_size E ?r sz"
    by (rule wanted_size_meta)
  have nx: "pg_next ?np = ?m + aligned_size ?K sz"
    using fresh_page_room(1) [OF al wm] by (simp add: retired_fields)
  have sp: "aligned_size ?K sz \<le> pg_space (fresh_page E ?r (wanted_size E ?r sz))"
    using al by (rule fresh_page_holds)
  have ml: "meta_size ?K (length (enc_key ?r)) \<le> aligned_size ?K (wanted_size E ?r sz)"
    using wm aligned_size_ge [OF al, of "wanted_size E ?r sz"] by simp
  have le: "pg_next ?np \<le> msize ?np"
    using nx sp ml fresh_page_room(2) [OF al wm]
    by (simp add: fresh_page_fields retired_fields)
  have f: "self ?np = count ps" "msize ?np = aligned_size ?K (wanted_size E ps sz)"
    "pg_used ?np = 1"
    by (simp_all add: fresh_page_fields retired_fields retired_ok)
  from e r c n pg u cu tr nx le f
  show "\<exists>n ps' np.
               PageStore_malloc E ps sz
                 = Return (Some (count ps, meta_size (cfg E) (length (enc_key ps)))) ps'
               \<and> (cleanup E (grown E (retired E ps) sz) = Return () ps'
                    \<or> (\<exists>s. cleanup E (grown E (retired E ps) sz) = Thrown s
                          \<and> ps' = s\<lparr>trace := trace s @ [Log_error Cannot_create_page]\<rparr>))
               \<and> n \<le> length (pages ps)
               \<and> pages ps' = drop n (pages (retired E ps)) @ [np]
               \<and> (\<forall>p \<in> set (take n (pages (retired E ps))). pg_used p = 0)
               \<and> self np = count ps
               \<and> msize np = aligned_size (cfg E) (wanted_size E ps sz)
               \<and> pg_used np = 1
               \<and> pg_next np = meta_size (cfg E) (length (enc_key ps)) + aligned_size (cfg E) sz
               \<and> pg_next np \<le> msize np
               \<and> current ps' = Some (count ps) \<and> count ps' = count ps + 1
               \<and> prefix (trace (retired E ps)) (trace ps')"
    by (intro exI [of _ n] exI [of _ ps'] exI [of _ ?np]) (simp add: retired_fields)
qed

theorem PageStore_malloc_spec_witness:
  "assert_size (cfg E0) 8 \<and> PageStore_inv store1 \<and> config_ok E0 store1
   \<and> has_room E0 store1 8
   \<and> (\<exists>ps'. PageStore_malloc E0 store1 8 = Return (Some (0, 48)) ps')
   \<and> assert_size (cfg E_nofile) 24 \<and> config_ok E_nofile store1
   \<and> \<not> has_room E_nofile store1 24
   \<and> \<not> file_ok E_nofile (make_page_name (base_name store1) (count store1))
          (aligned_size (cfg E_nofile) (wanted_size E_nofile store1 24))
   \<and> (\<exists>ps'. PageStore_malloc E_nofile store1 24 = Return None ps')
   \<and> PageStore_inv store0 \<and> config_ok E0 store0 \<and> \<not> has_room E0 store0 8
   \<and> file_ok E0 (make_page_name (base_name store0) (count store0))
        (aligned_size (cfg E0) (wanted_size E0 store0 8))
   \<and> (\<exists>ps'. PageStore_malloc E0 store0 8 = Return (Some (0, 40)) ps'
          \<and> current ps' = Some 0 \<and> count ps' = 1)"
proof -
  have a: "assert_size (cfg E0) 8" "assert_size (cfg E_nofile) 24"
    by (simp_all add: E0_fields E_nofile_fields K0_sizes)
  show ?thesis
    using a store1_ok store0_ok(1,2) store1_room
      PageStore_malloc_spec [OF a(1) store1_ok(2) store1_ok(1)]
      PageStore_malloc_spec [OF a(2) store1_ok(2) store1_ok(3)]
      PageStore_malloc_spec [OF a(1) store0_ok(2) store0_ok(1)]
    by (auto simp: E0_fields E_nofile_fields store1_fields store0_fields page1_fields
          K0_sizes)
qed

text \<open>
  C2. On a store whose counter is the sum of the sizes of its pages, \<open>cleanup\<close> ends (by
  returning, or by the exception of a deletion thread that could not be created) having
  removed exactly the \<open>n\<close> oldest pages for some \<open>n\<close>: each removed page had no buffer in use,
  no page at or behind the first page in use was removed, every removal happened while the
  total size exceeded the keep size, and after a return the retention predicate fails or the
  oldest page left is in use, with the files dispatched for removal oldest first.
\<close>

theorem cleanup_oldest_first:
  assumes "total_size ps = sum_list (map Page_size (pages ps))"
  shows "\<exists>n ps'. (cleanup E ps = Return () ps' \<or> cleanup E ps = Thrown ps')
           \<and> n \<le> length (pages ps) \<and> pages ps' = drop n (pages ps)
           \<and> (\<forall>p \<in> set (take n (pages ps)). pg_used p = 0)
           \<and> (\<forall>i < length (pages ps). 0 < pg_used (pages ps ! i) \<longrightarrow> n \<le> i)
           \<and> (\<forall>k<n. keep_size ps < total_size ps - sum_list (map Page_size (take k (pages ps))))
           \<and> (cleanup E ps = Return () ps' \<longrightarrow>
                 (\<not> page_cleanup_needed ps' \<or> (pages ps' \<noteq> [] \<and> 0 < pg_used (hd (pages ps'))))
                 \<and> removed_files (trace ps')
                     = removed_files (trace ps) @ map name (take n (pages ps)))
           \<and> (cleanup E ps = Thrown ps' \<longrightarrow>
                 0 < n \<and> thread_err E (name (pages ps ! (n - 1))) \<noteq> 0)"
proof -
  from cleanup_char [OF assms, of E] obtain n ps' where
    r: "cleanup E ps = Return () ps' \<or> cleanup E ps = Thrown ps'"
    and pn: "popped n ps ps'"
    and ks: "\<forall>k<n. keep_size ps < total_size ps - sum_list (map Page_size (take k (pages ps)))"
    and ret: "cleanup E ps = Return () ps' \<longrightarrow>
              (\<not> page_cleanup_needed ps' \<or> (pages ps' \<noteq> [] \<and> 0 < pg_used (hd (pages ps'))))
              \<and> removed_files (trace ps') = removed_files (trace ps) @ map name (take n (pages ps))"
    and thr: "cleanup E ps = Thrown ps' \<longrightarrow>
              0 < n \<and> thread_err E (name (pages ps ! (n - 1))) \<noteq> 0"
    unfolding cleanup_post_def by blast
  from pn have a: "n \<le> length (pages ps)" "pages ps' = drop n (pages ps)"
    "\<forall>p \<in> set (take n (pages ps)). pg_used p = 0"
    by (simp_all add: popped_def)
  have b: "\<forall>i < length (pages ps). 0 < pg_used (pages ps ! i) \<longrightarrow> n \<le> i"
    using popped_first_in_use [OF pn] by blast
  from r a b ks ret thr show ?thesis by blast
qed

theorem cleanup_oldest_first_witness:
  "total_size store_k = sum_list (map Page_size (pages store_k))
   \<and> (\<exists>ps'. cleanup E0 store_k = Return () ps' \<and> pages ps' = drop 1 (pages store_k)
          \<and> (\<forall>p \<in> set (take 1 (pages store_k)). pg_used p = 0)
          \<and> \<not> page_cleanup_needed ps'
          \<and> removed_files (trace ps') = [''gcache.page.000000''])"
proof -
  have h: "total_size store_k = sum_list (map Page_size (pages store_k))"
    by (simp add: store_k_fields page_k_fields)
  show ?thesis
    using h cleanup_oldest_first [OF h, of E0]
    by (simp add: store_k_cleanup store_k_fields page_k_fields page_cleanup_needed_def)
qed

text \<open>
  C4. After any sequence of calls on a new store (allocations, reallocations, releases, key
  changes, cleanups, resets, changes of the debug level, each in its own environment, thrown
  exceptions included) the counter equals the sum of the sizes of the queued pages. From such a
  store a page creation appends one page and adds its size to the counter, a page removal
  takes the oldest page off and subtracts its size, and the equality holds again.
\<close>

theorem total_size_is_sum:
  assumes "run cs (PageStore_ctor K dir keep_sz page_sz dbg keep_pg) = Some ps"
  shows "total_size ps = sum_list (map Page_size (pages ps))
       \<and> (\<forall>E sz ps'. new_page E ps sz = Return () ps' \<longrightarrow>
             length (pages ps') = Suc (length (pages ps))
             \<and> total_size ps' = total_size ps + aligned_size (cfg E) sz
             \<and> total_size ps' = sum_list (map Page_size (pages ps')))
       \<and> (\<forall>E ps'. delete_page E ps = Return True ps' \<longrightarrow>
             pages ps' = tl (pages ps)
             \<and> total_size ps' + Page_size (hd (pages ps)) = total_size ps
             \<and> total_size ps' = sum_list (map Page_size (pages ps')))"
proof -
  have i: "PageStore_inv ps" using inv_ctor assms by (rule inv_run)
  then have 1: "total_size ps = sum_list (map Page_size (pages ps))"
    by (simp add: PageStore_inv_def)
  have 2: "length (pages ps') = Suc (length (pages ps))
           \<and> total_size ps' = total_size ps + aligned_size (cfg E) sz
           \<and> total_size ps' = sum_list (map Page_size (pages ps'))"
    if n: "new_page E ps sz = Return () ps'" for E sz ps'
  proof -
    from n have "state_of (new_page E ps sz) = Some ps'" by simp
    with i have "PageStore_inv ps'" by (rule inv_new_page)
    with new_page_total [OF n] show ?thesis by (simp add: PageStore_inv_def)
  qed
  have 3: "pages ps' = tl (pages ps)
           \<and> total_size ps' + Page_size (hd (pages ps)) = total_size ps
           \<and> total_size ps' = sum_list (map Page_size (pages ps'))"
    if d: "delete_page E ps = Return True ps'" for E ps'
  proof -
    from d have "popped (Suc 0) ps ps'" by (rule delete_page_True_popped)
    with i have "PageStore_inv ps'" by (rule inv_popped)
    moreover from d have "pages ps \<noteq> []" by (auto simp: delete_page_def)
    with i have "Page_size (hd (pages ps)) \<le> total_size ps" by (rule inv_hd_le)
    ultimately show ?thesis using delete_page_total [OF d] by (auto simp: PageStore_inv_def)
  qed
  from 1 2 3 show ?thesis by blast
qed

theorem total_size_is_sum_witness:
  "run [(E0, Malloc 8), (E0, Set_enc_key [])] (PageStore_ctor K0 [] 0 64 0 False) = Some store2
   \<and> total_size store2 = 128 \<and> map Page_size (pages store2) = [64, 64]"
proof -
  have r: "run [(E0, Malloc 8), (E0, Set_enc_key [])] (PageStore_ctor K0 [] 0 64 0 False)
             = Some store2"
    by (simp add: store0_def [symmetric] store1_malloc store2_fields)
  show ?thesis
    using r total_size_is_sum [OF r]
    by (simp add: store2_fields page1_fields page2_fields Page_size_def)
qed

text \<open>
  C7. A first allocation of 8 bytes leaves the store \<open>store1\<close>, whose only page cannot
  take 24 bytes; while no file can be created the store
  returns null for that request and keeps the page as its current page; the next request, of
  8 bytes, is then served from that very page.
\<close>

theorem full_page_serves_again:
  "PageStore_malloc E0 store0 8 = Return (Some (0, 40)) store1
   \<and> current store1 = Some 0 \<and> find_page 0 (pages store1) = Some page1
   \<and> Page_malloc K0 page1 24 = Return None page1
   \<and> PageStore_malloc E_nofile store1 24 = Return None store1f
   \<and> pages store1f = [page1] \<and> current store1f = Some 0
   \<and> PageStore_malloc E0 store1f 8
       = Return (Some (0, 48)) (store1f\<lparr>pages := [bumped K0 page1 8]\<rparr>)"
  by (simp add: store1_malloc store1_fields page1_fields store1f_eq(1) store1f_malloc
        Page_malloc_full
        K0_sizes aligned_size_K0 page1_close)
     (simp add: store1f_eq(2) store1_fields)

text \<open>
  C8 (as amended). \<open>PageStore_reset\<close> and the destructor, which runs the same loop, pop
  pages off the front of the queue, whatever the keep size, for as long as the oldest page
  has no buffer in use, and stop at the first page in use: that page and all pages behind it
  stay, drained or not, and no page in use is removed. The removal of the file of each popped
  page is dispatched, oldest first. The one exception: when the deletion thread cannot be
  created for a page, that page has been popped already, its removal is not dispatched, the
  loop ends there with the later pages still queued, and \<open>PageStore_reset\<close> throws; the
  removal of every page popped before was dispatched. With debugging off the destructor
  returns: after the loop it joins the last deletion thread, or logs the exception it caught,
  and logs the number of pages left when there are any. Whatever the debugging level, the
  destructor neither throws nor aborts.
\<close>

theorem reset_takes_drained_front:
  "(\<exists>n ps'. (PageStore_reset E ps = Return () ps' \<or> PageStore_reset E ps = Thrown ps')
      \<and> n \<le> length (pages ps) \<and> pages ps' = drop n (pages ps)
      \<and> (\<forall>p \<in> set (take n (pages ps)). pg_used p = 0)
      \<and> (PageStore_reset E ps = Return () ps' \<longrightarrow>
            pages ps' = dropWhile (\<lambda>p. pg_used p = 0) (pages ps)
            \<and> removed_files (trace ps')
                = removed_files (trace ps) @ map name (takeWhile (\<lambda>p. pg_used p = 0) (pages ps))
            \<and> (\<forall>p \<in> set (takeWhile (\<lambda>p. pg_used p = 0) (pages ps)). thread_err E (name p) = 0)
            \<and> (ps_debug ps = 0 \<longrightarrow>
                  PageStore_dtor E ps
                    = Some (Return ()
                        (ps'\<lparr>trace := trace ps'
                             @ (case delete_thr ps' of None \<Rightarrow> []
                                | Some thr \<Rightarrow> [Pthread_join thr])
                             @ (if pages ps' = [] then []
                                else [Log_error (Could_not_delete (length (pages ps')))])\<rparr>))))
      \<and> (PageStore_reset E ps = Thrown ps' \<longrightarrow>
            0 < n \<and> thread_err E (name (pages ps ! (n - 1))) \<noteq> 0
            \<and> (\<forall>p \<in> set (take (n - 1) (pages ps)). thread_err E (name p) = 0)
            \<and> removed_files (trace ps')
                = removed_files (trace ps) @ map name (take (n - 1) (pages ps))
            \<and> (ps_debug ps = 0 \<longrightarrow>
                  PageStore_dtor E ps
                    = Some (Return ()
                        (ps'\<lparr>trace := trace ps' @ [Log_error In_dtor]
                             @ (if pages ps' = [] then []
                                else [Log_error (Could_not_delete (length (pages ps')))])\<rparr>)))))
   \<and> (\<forall>s. PageStore_dtor E ps \<noteq> Some (Thrown s)) \<and> PageStore_dtor E ps \<noteq> Some Aborted"
proof -
  let ?P = "\<lambda>p. pg_used p = 0"
  from reset_result [of E ps] obtain n ps' where
    r: "PageStore_reset E ps = Return () ps' \<or> PageStore_reset E ps = Thrown ps'"
    and pn: "popped n ps ps'"
    and ret: "PageStore_reset E ps = Return () ps' \<longrightarrow>
            pages ps' = dropWhile ?P (pages ps)
            \<and> removed_files (trace ps')
                = removed_files (trace ps) @ map name (takeWhile ?P (pages ps))
            \<and> (\<forall>p \<in> set (takeWhile ?P (pages ps)). thread_err E (name p) = 0)"
    and thr: "PageStore_reset E ps = Thrown ps' \<longrightarrow>
            0 < n \<and> thread_err E (name (pages ps ! (n - 1))) \<noteq> 0
            \<and> (\<forall>p \<in> set (take (n - 1) (pages ps)). thread_err E (name p) = 0)
            \<and> removed_files (trace ps')
                = removed_files (trace ps) @ map name (take (n - 1) (pages ps))"
    by blast
  from pn have n: "n \<le> length (pages ps)" "pages ps' = drop n (pages ps)"
    "\<forall>p \<in> set (take n (pages ps)). pg_used p = 0"
    by (simp_all add: popped_def)
  have d1: "PageStore_reset E ps = Return () ps' \<longrightarrow> ps_debug ps = 0 \<longrightarrow>
                  PageStore_dtor E ps
                    = Some (Return ()
                        (ps'\<lparr>trace := trace ps'
                             @ (case delete_thr ps' of None \<Rightarrow> []
                                | Some thr \<Rightarrow> [Pthread_join thr])
                             @ (if pages ps' = [] then []
                                else [Log_error (Could_not_delete (length (pages ps')))])\<rparr>))"
    using dtor_result(1) [of ps E ps'] by blast
  have d2: "PageStore_reset E ps = Thrown ps' \<longrightarrow> ps_debug ps = 0 \<longrightarrow>
                  PageStore_dtor E ps
                    = Some (Return ()
                        (ps'\<lparr>trace := trace ps' @ [Log_error In_dtor]
                             @ (if pages ps' = [] then []
                                else [Log_error (Could_not_delete (length (pages ps')))])\<rparr>))"
    using dtor_result(2) [of ps E ps'] by blast
  have k: "(\<forall>s. PageStore_dtor E ps \<noteq> Some (Thrown s)) \<and> PageStore_dtor E ps \<noteq> Some Aborted"
    using dtor_kind [of E ps] by auto
  from r n ret thr d1 d2 k show ?thesis by blast
qed

theorem reset_takes_drained_front_witness:
  "pages store_k = [page_k] \<and> pg_used page_k = 0 \<and> ps_debug store_k = 0
   \<and> thread_err E0 (name page_k) = 0
   \<and> (\<exists>ps'. PageStore_reset E0 store_k = Return () ps' \<and> pages ps' = []
          \<and> removed_files (trace ps') = [''gcache.page.000000'']
          \<and> PageStore_dtor E0 store_k
              = Some (Return () (ps'\<lparr>trace := trace ps' @ [Pthread_join ''gcache.page.000000'']\<rparr>)))
   \<and> ps_debug store2 = 0
   \<and> (\<exists>ps'. PageStore_dtor E0 store2 = Some (Return () ps') \<and> pages ps' = [page1, page2]
          \<and> trace ps' = [Log_error (Could_not_delete 2)])
   \<and> thread_err E_nothread (name page_k) \<noteq> 0
   \<and> PageStore_reset E_nothread store_k = Thrown store_k_popped
   \<and> pages store_k_popped = [] \<and> removed_files (trace store_k_popped) = []
   \<and> PageStore_dtor E_nothread store_k
       = Some (Return () (store_k_popped\<lparr>trace := [Log_error In_dtor]\<rparr>))"
  using reset_takes_drained_front [of E0 store_k] reset_takes_drained_front [of E0 store2]
    reset_takes_drained_front [of E_nothread store_k]
  by (simp add: store_k_reset store_k_dtor store_k_fields page_k_fields E0_fields store2_dtor
        store2_fields store_k_nothread E_nothread_fields store_k_popped_def)

text \<open>
  The claim C8 as stated fails: \<open>store2\<close>, built by one allocation and one key change, holds
  a page in use in front of a drained page; \<open>PageStore_reset\<close> removes neither and logs
  nothing, and the destructor leaves both.
\<close>

theorem reset_leaves_drained_page:
  "PageStore_malloc E0 store0 8 = Return (Some (0, 40)) store1
   \<and> set_enc_key E0 store1 [] = Return () store2
   \<and> pages store2 = [page1, page2] \<and> pg_used page1 = 1 \<and> pg_used page2 = 0
   \<and> PageStore_reset E0 store2 = Return () store2
   \<and> PageStore_dtor E0 store2
       = Some (Return () (store2\<lparr>trace := [Log_error (Could_not_delete 2)]\<rparr>))"
  by (simp add: store1_malloc store2_fields page1_fields page2_fields store2_reset store2_dtor)

text \<open>
  C6 (as amended). When the current page of a store cannot take a request,
  \<open>PageStore_malloc\<close> goes on with the store in which that page is closed: its cursor is
  where it was, the header at the cursor is the cleared, zero-size header when at least
  \<open>BH_SIZE\<close> bytes are left on the page, and the page is untouched when fewer are left.
\<close>

theorem sentinel_on_full_page:
  assumes "assert_size (cfg E) sz" "current ps = Some a" "find_page a (pages ps) = Some cur"
    "pg_space cur < aligned_size (cfg E) sz"
  shows "Page_malloc (cfg E) cur sz = Return None (Page_close (cfg E) cur)
       \<and> PageStore_malloc E ps sz = malloc_new E (retired E ps) sz
       \<and> find_page a (pages (retired E ps)) = Some (Page_close (cfg E) cur)
       \<and> pg_next (Page_close (cfg E) cur) = pg_next cur
       \<and> (BH_SIZE (cfg E) \<le> pg_space cur \<longrightarrow>
             bhs (Page_close (cfg E) cur) (pg_next cur) = BH_clear
             \<and> bh_size (bhs (Page_close (cfg E) cur) (pg_next cur)) = 0)
       \<and> (pg_space cur < BH_SIZE (cfg E) \<longrightarrow> Page_close (cfg E) cur = cur)"
proof -
  from assms(3) have s: "self cur = a" "a \<in> self ` set (pages ps)"
    using find_page_Some [OF assms(3)] by auto
  have "find_page a (pages (retired E ps)) = Some (Page_close (cfg E) cur)"
    using assms(2,3) s by (simp add: retired_def find_put_page)
  moreover have "PageStore_malloc E ps sz = malloc_new E (retired E ps) sz"
    using assms by (rule PageStore_malloc_full)
  moreover have "Page_malloc (cfg E) cur sz = Return None (Page_close (cfg E) cur)"
    using assms(1,4) by (rule Page_malloc_full)
  ultimately show ?thesis by (simp add: Page_close_def BH_clear_def)
qed

theorem sentinel_on_full_page_witness:
  "assert_size (cfg E0) 32 \<and> current store_k = Some 0
   \<and> find_page 0 (pages store_k) = Some page_k \<and> pg_space page_k < aligned_size (cfg E0) 32
   \<and> BH_SIZE (cfg E0) \<le> pg_space page_k
   \<and> bhs (Page_close (cfg E0) page_k) 40 = BH_clear"
proof -
  have h: "assert_size (cfg E0) 32" "current store_k = Some 0"
    "find_page 0 (pages store_k) = Some page_k" "pg_space page_k < aligned_size (cfg E0) 32"
    by (simp_all add: E0_fields K0_sizes store_k_fields page_k_fields page_k_room
          aligned_size_K0)
  show ?thesis
    using h sentinel_on_full_page [OF h]
    by (simp add: page_k_room E0_fields K0_simps)
qed

text \<open>
  The claim C6 as stated fails: a page of 64 bytes on a file with old contents has 8 bytes
  left after a buffer of 40 bytes; a request of 16 bytes fails on it, nothing is written, and
  the header at its cursor is not a zero-size one.
\<close>

theorem no_sentinel_without_room:
  "Page_malloc K0 page_s 40 = Return (Some 16) page_t
   \<and> pg_space page_t = 8 \<and> pg_next page_t = 56
   \<and> Page_malloc K0 page_t 16 = Return None page_t
   \<and> bh_size (bhs page_t (pg_next page_t)) = 40"
proof -
  have s: "pg_next page_s = 16" "pg_space page_s = 48" "bhs page_s = stale_bhs"
    by (simp_all add: page_s_def Page_ctor_id Page_ctor_room K0_simps aligned_size_K0)
  have m: "Page_malloc K0 page_s 40 = Return (Some 16) (bumped K0 page_s 40)"
    using Page_malloc_fits [of K0 40 page_s] by (simp add: K0_sizes aligned_size_K0 s)
  then have t: "page_t = bumped K0 page_s 40" by (simp add: page_t_def)
  have f: "pg_space page_t = 8" "pg_next page_t = 56" "bhs page_t = stale_bhs"
    by (simp_all add: t s aligned_size_K0)
  have "Page_malloc K0 page_t 16 = Return None (Page_close K0 page_t)"
    by (rule Page_malloc_full) (simp_all add: K0_sizes aligned_size_K0 f)
  moreover have "Page_close K0 page_t = page_t" by (simp add: Page_close_def f K0_simps)
  ultimately show ?thesis using m t f by (simp add: stale_bhs_def)
qed

text \<open>
  C9. For a size that passes the limit check and a buffer whose header names the queued page
  that holds it, a page with at least that buffer in use: the page never grows the buffer in
  place. When the file of a new page cannot be created, \<open>PageStore_realloc\<close> returns null
  and the store is as before but for the logged error, so the buffer, its header and its page's
  count are untouched. Otherwise it returns the slot right behind the metadata of the new
  page. The new page is the page a fresh allocation of \<open>sz\<close> bytes leaves, with exactly the
  first \<open>min (bh_size - BH_SIZE) sz\<close> bytes of the old payload copied to the start of the
  slot and every other byte as the new page had it. The old page is as before except that
  the header of the buffer is marked released and one buffer less is in use: its bytes are
  unchanged. Every other page of the store is a page of the store before the call.
\<close>

theorem PageStore_realloc_spec:
  assumes sz: "assert_size (cfg E) sz" and inv: "PageStore_inv ps" and cf: "config_ok E ps"
    and h: "find_page a (pages ps) = Some holder"
    and ctx: "bh_ctx (bhs holder off) = Some a"
    and use: "0 < pg_used holder"
    and big: "BH_SIZE (cfg E) < bh_size (bhs holder off)"
  shows "Page_realloc holder off sz = None
       \<and> (\<not> file_ok E (make_page_name (base_name ps) (count ps))
                (aligned_size (cfg E) (wanted_size E ps sz)) \<longrightarrow>
             (\<exists>ps'. PageStore_realloc E ps (a, off) sz = Return None ps'
                \<and> ps' = ps\<lparr>trace := trace ps @ [Log_error Cannot_create_page]\<rparr>
                \<and> find_page a (pages ps') = Some holder))
       \<and> (file_ok E (make_page_name (base_name ps) (count ps))
              (aligned_size (cfg E) (wanted_size E ps sz)) \<longrightarrow>
             (\<exists>ps' src dst.
                PageStore_realloc E ps (a, off) sz
                  = Return (Some (count ps, meta_size (cfg E) (length (enc_key ps)))) ps'
                \<and> find_page a (pages ps') = Some src
                \<and> find_page (count ps) (pages ps') = Some dst
                \<and> (\<forall>i < min (bh_size (bhs holder off) - BH_SIZE (cfg E)) sz.
                      mem dst (meta_size (cfg E) (length (enc_key ps)) + i)
                        = mem holder (off + i))
                \<and> (\<forall>i. i < meta_size (cfg E) (length (enc_key ps))
                        \<or> meta_size (cfg E) (length (enc_key ps))
                            + min (bh_size (bhs holder off) - BH_SIZE (cfg E)) sz \<le> i \<longrightarrow>
                      mem dst i = mem (fresh_page E ps (wanted_size E ps sz)) i)
                \<and> dst = (bumped (cfg E) (fresh_page E ps (wanted_size E ps sz)) sz)
                    \<lparr>mem := (\<lambda>i. if meta_size (cfg E) (length (enc_key ps)) \<le> i
                                    \<and> i < meta_size (cfg E) (length (enc_key ps))
                                          + min (bh_size (bhs holder off) - BH_SIZE (cfg E)) sz
                                 then mem holder
                                        (off + (i - meta_size (cfg E) (length (enc_key ps))))
                                 else mem (fresh_page E ps (wanted_size E ps sz)) i)\<rparr>
                \<and> src = holder\<lparr>bhs := (bhs holder)(off := BH_release (bhs holder off)),
                                pg_used := pg_used holder - 1\<rparr>
                \<and> bhs src off = BH_release (bhs holder off)
                \<and> bh_released (bhs src off)
                \<and> pg_used src = pg_used holder - 1
                \<and> mem src = mem holder
                \<and> pg_used dst = 1
                \<and> pg_next dst
                    = meta_size (cfg E) (length (enc_key ps)) + aligned_size (cfg E) sz
                \<and> (\<forall>q \<in> set (pages ps'). self q \<noteq> a \<and> self q \<noteq> count ps \<longrightarrow>
                      q \<in> set (pages ps))))"
proof (intro conjI impI)
  show "Page_realloc holder off sz = None" by (simp add: Page_realloc_def)
next
  assume "\<not> file_ok E (make_page_name (base_name ps) (count ps))
                (aligned_size (cfg E) (wanted_size E ps sz))"
  with realloc_nofile [OF sz h ctx] h
  show "\<exists>ps'. PageStore_realloc E ps (a, off) sz = Return None ps'
                \<and> ps' = ps\<lparr>trace := trace ps @ [Log_error Cannot_create_page]\<rparr>
                \<and> find_page a (pages ps') = Some holder"
    by simp
next
  let ?m = "meta_size (cfg E) (length (enc_key ps))"
  let ?k = "min (bh_size (bhs holder off) - BH_SIZE (cfg E)) sz"
  let ?fp = "fresh_page E ps (wanted_size E ps sz)"
  assume "file_ok E (make_page_name (base_name ps) (count ps))
              (aligned_size (cfg E) (wanted_size E ps sz))"
  from realloc_ok [OF sz inv cf h ctx use this] obtain ps' src dst where
    r: "PageStore_realloc E ps (a, off) sz = Return (Some (count ps, ?m)) ps'"
    "find_page a (pages ps') = Some src"
    "find_page (count ps) (pages ps') = Some dst"
    "\<forall>i < ?k. mem dst (?m + i) = mem holder (off + i)"
    "bhs src off = BH_release (bhs holder off)"
    "pg_used src = pg_used holder - 1"
    "mem src = mem holder"
    "pg_used dst = 1"
    "pg_next dst = ?m + aligned_size (cfg E) sz"
    and xd: "dst = (bumped (cfg E) ?fp sz)
                    \<lparr>mem := (\<lambda>i. if ?m \<le> i \<and> i < ?m + ?k
                                 then mem holder (off + (i - ?m)) else mem ?fp i)\<rparr>"
    and xs: "src = holder\<lparr>bhs := (bhs holder)(off := BH_release (bhs holder off)),
                                pg_used := pg_used holder - 1\<rparr>"
    and ot: "\<forall>q \<in> set (pages ps'). self q \<noteq> a \<and> self q \<noteq> count ps \<longrightarrow> q \<in> set (pages ps)"
    by blast
  from r(5) have rl: "bh_released (bhs src off)" by (simp add: BH_release_def)
  have fr: "\<forall>i. i < ?m \<or> ?m + ?k \<le> i \<longrightarrow> mem dst i = mem ?fp i"
    by (subst xd) auto
  from r xd xs ot rl fr
  show "\<exists>ps' src dst.
                PageStore_realloc E ps (a, off) sz
                  = Return (Some (count ps, meta_size (cfg E) (length (enc_key ps)))) ps'
                \<and> find_page a (pages ps') = Some src
                \<and> find_page (count ps) (pages ps') = Some dst
                \<and> (\<forall>i < min (bh_size (bhs holder off) - BH_SIZE (cfg E)) sz.
                      mem dst (meta_size (cfg E) (length (enc_key ps)) + i)
                        = mem holder (off + i))
                \<and> (\<forall>i. i < meta_size (cfg E) (length (enc_key ps))
                        \<or> meta_size (cfg E) (length (enc_key ps))
                            + min (bh_size (bhs holder off) - BH_SIZE (cfg E)) sz \<le> i \<longrightarrow>
                      mem dst i = mem (fresh_page E ps (wanted_size E ps sz)) i)
                \<and> dst = (bumped (cfg E) (fresh_page E ps (wanted_size E ps sz)) sz)
                    \<lparr>mem := (\<lambda>i. if meta_size (cfg E) (length (enc_key ps)) \<le> i
                                    \<and> i < meta_size (cfg E) (length (enc_key ps))
                                          + min (bh_size (bhs holder off) - BH_SIZE (cfg E)) sz
                                 then mem holder
                                        (off + (i - meta_size (cfg E) (length (enc_key ps))))
                                 else mem (fresh_page E ps (wanted_size E ps sz)) i)\<rparr>
                \<and> src = holder\<lparr>bhs := (bhs holder)(off := BH_release (bhs holder off)),
                                pg_used := pg_used holder - 1\<rparr>
                \<and> bhs src off = BH_release (bhs holder off)
                \<and> bh_released (bhs src off)
                \<and> pg_used src = pg_used holder - 1
                \<and> mem src = mem holder
                \<and> pg_used dst = 1
                \<and> pg_next dst
                    = meta_size (cfg E) (length (enc_key ps)) + aligned_size (cfg E) sz
                \<and> (\<forall>q \<in> set (pages ps'). self q \<noteq> a \<and> self q \<noteq> count ps \<longrightarrow>
                      q \<in> set (pages ps))"
    by (intro exI [of _ ps'] exI [of _ src] exI [of _ dst] conjI) assumption+
qed

theorem PageStore_realloc_spec_witness:
  "assert_size (cfg E0) 4 \<and> PageStore_inv store1h \<and> config_ok E0 store1h
   \<and> find_page 0 (pages store1h) = Some page1h \<and> bh_ctx (bhs page1h 40) = Some 0
   \<and> 0 < pg_used page1h \<and> BH_SIZE (cfg E0) < bh_size (bhs page1h 40)
   \<and> file_ok E0 (make_page_name (base_name store1h) (count store1h))
        (aligned_size (cfg E0) (wanted_size E0 store1h 4))
   \<and> mem page1h 40 = 161 \<and> mem page1h 43 = 164 \<and> mem page1h 44 = 165
   \<and> (\<exists>ps' src dst. PageStore_realloc E0 store1h (0, 40) 4 = Return (Some (1, 40)) ps'
          \<and> find_page 0 (pages ps') = Some src \<and> find_page 1 (pages ps') = Some dst
          \<and> mem dst 40 = 161 \<and> mem dst 43 = 164 \<and> mem dst 44 = 0
          \<and> bh_released (bhs src 40) \<and> pg_used src = 0 \<and> pg_used dst = 1)
   \<and> assert_size (cfg E_nofile) 4 \<and> config_ok E_nofile store1h
   \<and> \<not> file_ok E_nofile (make_page_name (base_name store1h) (count store1h))
          (aligned_size (cfg E_nofile) (wanted_size E_nofile store1h 4))
   \<and> PageStore_realloc E_nofile store1h (0, 40) 4
       = Return None (store1h\<lparr>trace := [Log_error Cannot_create_page]\<rparr>)"
proof -
  have a: "assert_size (cfg E0) 4" "assert_size (cfg E_nofile) 4"
    by (simp_all add: E0_fields E_nofile_fields K0_sizes)
  have h: "find_page 0 (pages store1h) = Some page1h" "bh_ctx (bhs page1h 40) = Some 0"
    "0 < pg_used page1h" "BH_SIZE (cfg E0) < bh_size (bhs page1h 40)"
    "BH_SIZE (cfg E_nofile) < bh_size (bhs page1h 40)"
    by (simp_all add: store1h_fields page1h_fields E0_fields E_nofile_fields K0_simps)
  have nf: "PageStore_realloc E_nofile store1h (0, 40) 4
              = Return None (store1h\<lparr>trace := [Log_error Cannot_create_page]\<rparr>)"
    using PageStore_realloc_spec [OF a(2) store1h_ok(2) store1h_ok(3) h(1,2,3,5)]
    by (simp add: E_nofile_fields store1h_fields)
  have fk: "file_ok E0 (make_page_name (base_name store1h) (count store1h))
              (aligned_size (cfg E0) (wanted_size E0 store1h 4))"
    by (simp add: E0_fields)
  have v: "meta_size (cfg E0) (length (enc_key store1h)) = 40"
    "min (bh_size (bhs page1h 40) - BH_SIZE (cfg E0)) 4 = 4" "count store1h = 1"
    "wanted_size E0 store1h 4 = 64"
    by (simp_all add: E0_fields store1h_fields store1h_ok page1h_fields K0_sizes K0_simps)
  from PageStore_realloc_spec [OF a(1) store1h_ok(2) store1h_ok(1) h(1,2,3,4),
      THEN conjunct2, THEN conjunct2, THEN mp, OF fk]
  obtain ps' src dst where
    r0: "PageStore_realloc E0 store1h (0, 40) 4
          = Return (Some (count store1h, meta_size (cfg E0) (length (enc_key store1h)))) ps'"
    "find_page 0 (pages ps') = Some src" "find_page (count store1h) (pages ps') = Some dst"
    and c0: "\<forall>i < min (bh_size (bhs page1h 40) - BH_SIZE (cfg E0)) 4.
               mem dst (meta_size (cfg E0) (length (enc_key store1h)) + i) = mem page1h (40 + i)"
    and o0: "\<forall>i. i < meta_size (cfg E0) (length (enc_key store1h))
               \<or> meta_size (cfg E0) (length (enc_key store1h))
                   + min (bh_size (bhs page1h 40) - BH_SIZE (cfg E0)) 4 \<le> i \<longrightarrow>
               mem dst i = mem (fresh_page E0 store1h (wanted_size E0 store1h 4)) i"
    and u0: "bh_released (bhs src 40)" "pg_used src = pg_used page1h - 1" "pg_used dst = 1"
    by blast
  from r0 have r: "PageStore_realloc E0 store1h (0, 40) 4 = Return (Some (1, 40)) ps'"
    "find_page 0 (pages ps') = Some src" "find_page 1 (pages ps') = Some dst"
    by (simp_all add: v)
  from c0 have c: "\<forall>i < 4. mem dst (40 + i) = mem page1h (40 + i)" by (simp add: v)
  from o0 have o: "\<forall>i. i < 40 \<or> 44 \<le> i \<longrightarrow> mem dst i = mem (fresh_page E0 store1h 64) i"
    by (simp add: v)
  from u0 have u: "bh_released (bhs src 40)" "pg_used src = 0" "pg_used dst = 1"
    by (simp_all add: page1h_fields)
  from c [rule_format, of 0] c [rule_format, of 3]
  have b: "mem dst 40 = 161" "mem dst 43 = 164" by (simp_all add: page1h_fields)
  from o have b4: "mem dst 44 = 0" by (simp add: store1h_fresh_mem)
  from r b b4 u have "\<exists>ps' src dst. PageStore_realloc E0 store1h (0, 40) 4 = Return (Some (1, 40)) ps'
          \<and> find_page 0 (pages ps') = Some src \<and> find_page 1 (pages ps') = Some dst
          \<and> mem dst 40 = 161 \<and> mem dst 43 = 164 \<and> mem dst 44 = 0
          \<and> bh_released (bhs src 40) \<and> pg_used src = 0 \<and> pg_used dst = 1"
    by blast
  with a h(1,2,3,4) store1h_ok(1,2,3) nf show ?thesis
    by (simp add: E0_fields E_nofile_fields page1h_fields)
qed

end
